theory Spec2Isabelle
  imports Main "HOL-Library.Word"
begin

section \<open>JavaScript values\<close>

text \<open>
  The handler of \<^verbatim>\<open>src/handler.ts\<close> works on the dynamically typed rows that the
  spreadsheet decoder returns. A JavaScript string is a sequence of 16-bit code units,
  and the regular expressions of the handler (no \<^verbatim>\<open>u\<close> flag) match code unit by
  code unit.
\<close>

type_synonym char16 = "16 word"
type_synonym jsstring = "char16 list"

text \<open>An ASCII literal of the source as a sequence of code units.\<close>

definition js :: "string \<Rightarrow> jsstring" where
  "js s = map (\<lambda>c. of_nat (of_char c)) s"

text \<open>
  Decimal digits of a non-negative integer: what a template literal and \<^verbatim>\<open>String\<close>
  print for an integer below \<open>2^53\<close>.
\<close>

fun digits :: "nat \<Rightarrow> jsstring" where
  "digits n = (if n < 10 then [of_nat (48 + n)] else digits (n div 10) @ [of_nat (48 + n mod 10)])"

declare digits.simps [simp del]

text \<open>
  A number is a double. The handler never computes with the numbers of a row: it only
  tests their truthiness and converts them to strings. \<open>SafeInt neg m\<close> is the integer
  of magnitude \<open>m \<le> 2^53\<close> (\<open>SafeInt True 0\<close> is \<^verbatim>\<open>-0\<close>); every other finite
  double is given by \<open>OtherFinite s\<close>, where \<open>s\<close> is its canonical string (the result
  of \<^verbatim>\<open>Number::toString\<close>, which determines the double). Such a number is never zero.
\<close>

datatype jsnum = NaN | Infinity bool | SafeInt bool nat | OtherFinite jsstring

text \<open>
  The value of a property of a row: a string, a number or a boolean of a cell, or
  \<^verbatim>\<open>null\<close> or \<^verbatim>\<open>undefined\<close>.
\<close>

datatype jsval = JUndefined | JNull | JBool bool | JNum jsnum | JStr jsstring

datatype jstype = TUndefined | TObject | TBoolean | TNumber | TString

fun typeof :: "jsval \<Rightarrow> jstype" where
  "typeof JUndefined = TUndefined"
| "typeof JNull = TObject"
| "typeof (JBool b) = TBoolean"
| "typeof (JNum n) = TNumber"
| "typeof (JStr s) = TString"

fun numTruthy :: "jsnum \<Rightarrow> bool" where
  "numTruthy NaN = False"
| "numTruthy (Infinity neg) = True"
| "numTruthy (SafeInt neg m) = (m \<noteq> 0)"
| "numTruthy (OtherFinite s) = True"

text \<open>\<^verbatim>\<open>ToBoolean\<close>: what \<^verbatim>\<open>!x\<close> and \<^verbatim>\<open>x && y\<close> test.\<close>

fun truthy :: "jsval \<Rightarrow> bool" where
  "truthy JUndefined = False"
| "truthy JNull = False"
| "truthy (JBool b) = b"
| "truthy (JNum n) = numTruthy n"
| "truthy (JStr s) = (s \<noteq> [])"

fun Number_toString :: "jsnum \<Rightarrow> jsstring" where
  "Number_toString NaN = js ''NaN''"
| "Number_toString (Infinity neg) = (if neg then js ''-Infinity'' else js ''Infinity'')"
| "Number_toString (SafeInt neg m) = (if neg \<and> m \<noteq> 0 then js ''-'' else []) @ digits m"
| "Number_toString (OtherFinite s) = s"

text \<open>\<^verbatim>\<open>String(x)\<close>, also the coercion \<^verbatim>\<open>RegExp.prototype.test\<close> applies to its argument.\<close>

fun String_of :: "jsval \<Rightarrow> jsstring" where
  "String_of JUndefined = js ''undefined''"
| "String_of JNull = js ''null''"
| "String_of (JBool b) = (if b then js ''true'' else js ''false'')"
| "String_of (JNum n) = Number_toString n"
| "String_of (JStr s) = s"

text \<open>\<^verbatim>\<open>a ?? b\<close>: the right operand replaces \<^verbatim>\<open>null\<close> and \<^verbatim>\<open>undefined\<close> only.\<close>

definition nullish :: "jsval \<Rightarrow> jsval \<Rightarrow> jsval" where
  "nullish a b = (if a = JUndefined \<or> a = JNull then b else a)"

text \<open>
  A decoded row is an object: its own properties in insertion order, each key once.
  Reading a property that the object does not have gives \<^verbatim>\<open>undefined\<close>.
\<close>

type_synonym row = "(string \<times> jsval) list"

definition getProp :: "row \<Rightarrow> string \<Rightarrow> jsval" where
  "getProp r k = (case map_of r k of None \<Rightarrow> JUndefined | Some v \<Rightarrow> v)"

definition Object_values :: "row \<Rightarrow> jsval list" where
  "Object_values r = map snd r"

section \<open>Regular expressions\<close>

text \<open>
  The two patterns of the handler are anchored at both ends (\<^verbatim>\<open>^...$\<close>, no flags), and
  use literal characters, negated character classes, \<^verbatim>\<open>?\<close>, \<^verbatim>\<open>+\<close> and concatenation.
  \<open>matches r s\<close> says that the whole of \<open>s\<close> is matched by \<open>r\<close>, which is what
  \<^verbatim>\<open>/^r$/.test(s)\<close> returns.
\<close>

text \<open>The class \<^verbatim>\<open>\s\<close>: white space and line terminators.\<close>

definition isWhiteSpace :: "char16 \<Rightarrow> bool" where
  "isWhiteSpace c \<longleftrightarrow>
     c \<in> {0x0009, 0x000A, 0x000B, 0x000C, 0x000D, 0x0020, 0x00A0, 0x1680,
          0x2028, 0x2029, 0x202F, 0x205F, 0x3000, 0xFEFF}
     \<or> (0x2000 \<le> c \<and> c \<le> 0x200A)"

datatype cclass = Lit char16 | WhiteSpace

fun inClass :: "cclass \<Rightarrow> char16 \<Rightarrow> bool" where
  "inClass (Lit a) c = (c = a)"
| "inClass WhiteSpace c = isWhiteSpace c"

datatype regex =
    Chr char16
  | NoneOf "cclass list"
  | Seq regex regex
  | Opt regex
  | Plus regex

function matches :: "regex \<Rightarrow> jsstring \<Rightarrow> bool" where
  "matches (Chr a) s = (s = [a])"
| "matches (NoneOf cs) s =
     (case s of [c] \<Rightarrow> \<not> list_ex (\<lambda>k. inClass k c) cs | _ \<Rightarrow> False)"
| "matches (Seq r1 r2) s =
     list_ex (\<lambda>i. matches r1 (take i s) \<and> matches r2 (drop i s)) [0..<Suc (length s)]"
| "matches (Opt r) s = (s = [] \<or> matches r s)"
| "matches (Plus r) s =
     list_ex (\<lambda>i. matches r (take i s) \<and> (drop i s = [] \<or> matches (Plus r) (drop i s)))
       [1..<Suc (length s)]"
  by pat_completeness auto
termination
  by (relation "measures [\<lambda>(r, s). size r, \<lambda>(r, s). length s]") auto

declare matches.simps [simp del]

text \<open>A literal string as a pattern: its characters in sequence, before \<open>r\<close>.\<close>

primrec lits :: "jsstring \<Rightarrow> regex \<Rightarrow> regex" where
  "lits [] r = r"
| "lits (c # cs) r = Seq (Chr c) (lits cs r)"

section \<open>Row validation\<close>

text \<open>\<^verbatim>\<open>/^[^\s@]+@[^\s@]+\.[^\s@]+$/\<close>\<close>

definition emailRegex :: regex where
  "emailRegex =
     Seq (Plus (NoneOf [WhiteSpace, Lit 0x40]))
       (Seq (Chr 0x40)
         (Seq (Plus (NoneOf [WhiteSpace, Lit 0x40]))
           (Seq (Chr 0x2E)
             (Plus (NoneOf [WhiteSpace, Lit 0x40])))))"

definition isValidEmail :: "jsstring \<Rightarrow> bool" where
  "isValidEmail email = matches emailRegex email"

text \<open>\<^verbatim>\<open>/^(https?:\/\/[^\s]+)$/\<close>\<close>

definition urlRegex :: regex where
  "urlRegex =
     lits (js ''http'') (Seq (Opt (Chr 0x73)) (lits (js ''://'') (Plus (NoneOf [WhiteSpace]))))"

definition isValidUrl :: "jsstring \<Rightarrow> bool" where
  "isValidUrl url = matches urlRegex url"

text \<open>
  \<^verbatim>\<open>isRowEmpty\<close>: \<open>None\<close> is a row that is \<^verbatim>\<open>null\<close> or \<^verbatim>\<open>undefined\<close> (\<^verbatim>\<open>!row\<close>).
\<close>

definition isRowEmpty :: "row option \<Rightarrow> bool" where
  "isRowEmpty row =
     (case row of
        None \<Rightarrow> True
      | Some r \<Rightarrow>
          list_all (\<lambda>val. val = JNull \<or> val = JUndefined \<or> val = JStr []) (Object_values r))"

record validation =
  valid :: bool
  error :: "jsstring option"

text \<open>The template literal \<^verbatim>\<open>`Row ${index + 2}: reason`\<close>.\<close>

definition rowError :: "nat \<Rightarrow> string \<Rightarrow> validation" where
  "rowError index reason =
     \<lparr>valid = False, error = Some (js ''Row '' @ digits (index + 2) @ js '': '' @ js reason)\<rparr>"

definition reasonEmpty :: string where
  "reasonEmpty = ''Empty row''"

definition reasonUserId :: string where
  "reasonUserId = ''Missing or invalid 'userId'' @ [CHR 0x27]"

definition reasonName :: string where
  "reasonName = ''Missing or invalid 'name'' @ [CHR 0x27]"

definition reasonEmail :: string where
  "reasonEmail = ''Invalid 'email'' @ [CHR 0x27]"

definition reasonUrl :: string where
  "reasonUrl = ''Invalid 'profileImageUrl'' @ [CHR 0x27]"

text \<open>
  \<^verbatim>\<open>validateUser\<close>. The regular expressions receive the property value itself;
  \<^verbatim>\<open>test\<close> converts it to a string first.
\<close>

fun validateUser :: "row option \<Rightarrow> nat \<Rightarrow> validation" where
  "validateUser None index = rowError index reasonEmpty"
| "validateUser (Some user) index =
     (if isRowEmpty (Some user) then rowError index reasonEmpty
      else if \<not> truthy (getProp user ''userId'') \<or>
              (typeof (getProp user ''userId'') \<noteq> TString \<and>
               typeof (getProp user ''userId'') \<noteq> TNumber)
        then rowError index reasonUserId
      else if \<not> truthy (getProp user ''name'') \<or> typeof (getProp user ''name'') \<noteq> TString
        then rowError index reasonName
      else if \<not> truthy (getProp user ''email'') \<or>
              typeof (getProp user ''email'') \<noteq> TString \<or>
              \<not> isValidEmail (String_of (getProp user ''email''))
        then rowError index reasonEmail
      else if truthy (getProp user ''profileImageUrl'') \<and>
              \<not> isValidUrl (String_of (getProp user ''profileImageUrl''))
        then rowError index reasonUrl
      else \<lparr>valid = True, error = None\<rparr>)"

section \<open>Validation of all rows\<close>

text \<open>
  The \<^verbatim>\<open>filter\<close> callback of the handler: it validates the row at position \<open>i\<close>, pushes
  the error of an invalid row onto \<^verbatim>\<open>errors\<close> and keeps the valid rows. An element
  \<open>None\<close> of \<open>errors\<close> would be a pushed \<^verbatim>\<open>undefined\<close>.
\<close>

primrec filterUsers ::
  "row list \<Rightarrow> nat \<Rightarrow> jsstring option list \<Rightarrow> row list \<times> jsstring option list" where
  "filterUsers [] i errors = ([], errors)"
| "filterUsers (user # rest) i errors =
     (let result = validateUser (Some user) i;
          errors1 = (if \<not> valid result then errors @ [error result] else errors);
          (kept, errors2) = filterUsers rest (Suc i) errors1
      in (if valid result then user # kept else kept, errors2))"

section \<open>Write requests\<close>

datatype attribute = S jsval

type_synonym item = "(string \<times> attribute) list"

datatype writeRequest = PutRequest item

definition buildPutRequests :: "row list \<Rightarrow> writeRequest list" where
  "buildPutRequests validUsers =
     map (\<lambda>user. PutRequest
            [(''userId'', S (JStr (String_of (getProp user ''userId'')))),
             (''name'', S (getProp user ''name'')),
             (''email'', S (getProp user ''email'')),
             (''profileImage'', S (nullish (getProp user ''profileImageUrl'') (JStr [])))])
       validUsers"

datatype exn = TypeError | Thrown jsval

text \<open>
  The JavaScript version of the handler (\<^verbatim>\<open>src/unnamed/part_000\<close>) converts with
  \<^verbatim>\<open>user?.userId.toString()\<close>, which throws on \<^verbatim>\<open>null\<close> and \<^verbatim>\<open>undefined\<close>.
\<close>

definition toString_method :: "jsval \<Rightarrow> exn + jsstring" where
  "toString_method v = (if v = JUndefined \<or> v = JNull then Inl TypeError else Inr (String_of v))"

primrec buildPutRequests_js :: "row list \<Rightarrow> exn + writeRequest list" where
  "buildPutRequests_js [] = Inr []"
| "buildPutRequests_js (user # rest) =
     (case toString_method (getProp user ''userId'') of
        Inl e \<Rightarrow> Inl e
      | Inr userId \<Rightarrow>
          (case buildPutRequests_js rest of
             Inl e \<Rightarrow> Inl e
           | Inr requests \<Rightarrow>
               Inr (PutRequest
                      [(''userId'', S (JStr userId)),
                       (''name'', S (getProp user ''name'')),
                       (''email'', S (getProp user ''email'')),
                       (''profileImage'', S (nullish (getProp user ''profileImageUrl'') (JStr [])))]
                    # requests)))"

section \<open>Batches\<close>

definition TABLE_NAME :: string where
  "TABLE_NAME = ''userTable''"

definition BATCH_SIZE :: nat where
  "BATCH_SIZE = 25"

text \<open>
  A JavaScript array may have holes: \<open>None\<close> is an element that reads as \<^verbatim>\<open>undefined\<close>.
  Reading beyond the end gives \<^verbatim>\<open>undefined\<close>; writing beyond the end extends the array,
  leaving holes in between.
\<close>

definition arrayGet :: "'a option list \<Rightarrow> nat \<Rightarrow> 'a option" where
  "arrayGet xs i = (if i < length xs then xs ! i else None)"

definition arraySet :: "'a option list \<Rightarrow> nat \<Rightarrow> 'a \<Rightarrow> 'a option list" where
  "arraySet xs i v =
     (if i < length xs then xs[i := Some v]
      else xs @ replicate (i - length xs) None @ [Some v])"

text \<open>
  The callback of \<^verbatim>\<open>reduce\<close>. After the first statement the slot \<open>chunkIndex\<close> holds
  an array, so the \<^verbatim>\<open>push\<close> finds one.
\<close>

definition chunkStep :: "'a list option list \<Rightarrow> 'a \<Rightarrow> nat \<Rightarrow> 'a list option list" where
  "chunkStep acc item index =
     (let chunkIndex = index div BATCH_SIZE;
          acc1 = (case arrayGet acc chunkIndex of
                    None \<Rightarrow> arraySet acc chunkIndex []
                  | Some chunk \<Rightarrow> acc)
      in case arrayGet acc1 chunkIndex of
           Some chunk \<Rightarrow> arraySet acc1 chunkIndex (chunk @ [item])
         | None \<Rightarrow> acc1)"

text \<open>\<^verbatim>\<open>Array.prototype.reduce\<close> with an initial value; the callback also receives the index.\<close>

primrec reduce :: "('b \<Rightarrow> 'a \<Rightarrow> nat \<Rightarrow> 'b) \<Rightarrow> 'a list \<Rightarrow> nat \<Rightarrow> 'b \<Rightarrow> 'b" where
  "reduce f [] index acc = acc"
| "reduce f (x # xs) index acc = reduce f xs (Suc index) (f acc x index)"

definition batches :: "'a list \<Rightarrow> 'a list option list" where
  "batches putRequests = reduce chunkStep putRequests 0 []"

text \<open>
  The specification's reading of the partitioner, a contiguous chunking: the first
  \<open>n\<close> items, then the chunks of the rest.
\<close>

function chunks :: "nat \<Rightarrow> 'a list \<Rightarrow> 'a list list" where
  "chunks n xs = (if n = 0 \<or> xs = [] then [] else take n xs # chunks n (drop n xs))"
  by pat_completeness auto
termination
  by (relation "measure (\<lambda>(n, xs). length xs)") auto

declare chunks.simps [simp del]

section \<open>Collaborators and effects\<close>

text \<open>
  The storage service, the spreadsheet decoder and the table are outside the handler.
  They are functions of an environment; those that act on the outside world take the
  world \<open>'w\<close> and return the new one, and each may throw. The state of an invocation is
  the world, the lines written to the console, and the commands sent to the table so far.
\<close>

type_synonym buffer = "8 word list"

record stream =
  chunksOf :: "buffer list"
  failure :: "exn option"

record 'sheet workbook =
  SheetNames :: "jsstring list option"
  Sheets :: "jsstring \<Rightarrow> 'sheet option"

datatype command = BatchWriteItemCommand "(string \<times> writeRequest list option) list"

datatype logarg = Text jsstring | Caught exn | Strings "jsstring option list"

datatype logline = ConsoleError "logarg list" | ConsoleWarn "logarg list" | ConsoleLog "logarg list"

record 'w state =
  world :: 'w
  console :: "logline list"
  issued :: "command list"

record ('w, 'sheet) env =
  getObject :: "jsstring \<Rightarrow> jsstring \<Rightarrow> 'w \<Rightarrow> (exn + stream) \<times> 'w"
  decodeURIComponent :: "jsstring \<Rightarrow> exn + jsstring"
  xlsxRead :: "buffer \<Rightarrow> exn + 'sheet workbook"
  sheet_to_json :: "'sheet option \<Rightarrow> exn + row list option"
  dynamoSend :: "command \<Rightarrow> 'w \<Rightarrow> exn option \<times> 'w"

definition streamToBuffer :: "stream \<Rightarrow> exn + buffer" where
  "streamToBuffer body =
     (case failure body of Some e \<Rightarrow> Inl e | None \<Rightarrow> Inr (concat (chunksOf body)))"

definition logTo :: "logline \<Rightarrow> 'w state \<Rightarrow> 'w state" where
  "logTo l st = st\<lparr>console := console st @ [l]\<rparr>"

text \<open>
  The \<^verbatim>\<open>for ... of\<close> loop of \<^verbatim>\<open>writeToDynamoDBInBatches\<close>: each command is sent and
  awaited before the next; a rejected send leaves the loop with its exception.
\<close>

primrec sendAll ::
  "('w, 'sheet) env \<Rightarrow> writeRequest list option list \<Rightarrow> 'w state \<Rightarrow> (exn + unit) \<times> 'w state" where
  "sendAll env [] st = (Inr (), st)"
| "sendAll env (batch # rest) st =
     (let cmd = BatchWriteItemCommand [(TABLE_NAME, batch)];
          (res, w) = dynamoSend env cmd (world st);
          st1 = st\<lparr>world := w, issued := issued st @ [cmd]\<rparr>
      in case res of Some e \<Rightarrow> (Inl e, st1) | None \<Rightarrow> sendAll env rest st1)"

definition writeToDynamoDBInBatches ::
  "('w, 'sheet) env \<Rightarrow> writeRequest list \<Rightarrow> 'w state \<Rightarrow> (exn + unit) \<times> 'w state" where
  "writeToDynamoDBInBatches env putRequests st = sendAll env (batches putRequests) st"

section \<open>The handler\<close>

text \<open>
  Of a record of the event the handler reads \<^verbatim>\<open>s3.bucket.name\<close> and \<^verbatim>\<open>s3.object.key\<close>
  through optional chaining: \<open>None\<close> is a chain that ends in \<^verbatim>\<open>undefined\<close>. The
  test \<^verbatim>\<open>!x\<close> also holds of the empty string.
\<close>

record s3record =
  bucketName :: "jsstring option"
  objectKey :: "jsstring option"

record event =
  Records :: "s3record list option"

text \<open>\<^verbatim>\<open>key.replace(/\+/g, " ")\<close>\<close>

definition replacePlus :: "jsstring \<Rightarrow> jsstring" where
  "replacePlus key = map (\<lambda>c. if c = 0x2B then 0x20 else c) key"

text \<open>
  The body of the \<^verbatim>\<open>try\<close> block, in three parts that follow one another in the
  source. In each, \<open>Inl e\<close> is an exception that leaves the block, \<open>Inr ()\<close> its normal
  end or a \<^verbatim>\<open>return\<close>.
\<close>

text \<open>From the validation of the rows to the end of the block.\<close>

definition processRows ::
  "('w, 'sheet) env \<Rightarrow> row list \<Rightarrow> 'w state \<Rightarrow> (exn + unit) \<times> 'w state" where
  "processRows env jsonData st =
     (let (validUsers, errors) = filterUsers jsonData 0 []
      in if validUsers = []
         then (Inr (), logTo (ConsoleWarn [Text (js ''No valid records found.'')]) st)
         else
           (let putRequests = buildPutRequests validUsers
            in case writeToDynamoDBInBatches env putRequests st of
                 (Inl e, st1) \<Rightarrow> (Inl e, st1)
               | (Inr u, st1) \<Rightarrow>
                   (let st2 = logTo (ConsoleLog [Text (js ''Uploaded '' @ digits (length putRequests) @
                                                        js '' records to DynamoDB.'')]) st1
                    in (Inr (),
                        if errors \<noteq> []
                        then logTo (ConsoleWarn [Text (js ''skipped '' @ digits (length errors) @ js '' rows:''),
                                                 Strings errors]) st2
                        else st2))))"

text \<open>From the check of the workbook to the rows of its first sheet.\<close>

definition processWorkbook ::
  "('w, 'sheet) env \<Rightarrow> 'sheet workbook \<Rightarrow> 'w state \<Rightarrow> (exn + unit) \<times> 'w state" where
  "processWorkbook env workbook st =
     (case SheetNames workbook of
        None \<Rightarrow> (Inr (), logTo (ConsoleError [Text (js ''No sheets found in Excel file.'')]) st)
      | Some [] \<Rightarrow> (Inr (), logTo (ConsoleError [Text (js ''No sheets found in Excel file.'')]) st)
      | Some (first # others) \<Rightarrow>
          (case sheet_to_json env (Sheets workbook first) of
             Inl e \<Rightarrow> (Inl e, st)
           | Inr None \<Rightarrow> (Inr (), logTo (ConsoleError [Text (js ''Excel sheet is empty.'')]) st)
           | Inr (Some []) \<Rightarrow> (Inr (), logTo (ConsoleError [Text (js ''Excel sheet is empty.'')]) st)
           | Inr (Some (r # rs)) \<Rightarrow> processRows env (r # rs) st))"

text \<open>From the event to the decoded workbook.\<close>

definition handlerBody ::
  "('w, 'sheet) env \<Rightarrow> event \<Rightarrow> 'w state \<Rightarrow> (exn + unit) \<times> 'w state" where
  "handlerBody env event st =
     (case Records event of
        None \<Rightarrow> (Inl TypeError, st)
      | Some records \<Rightarrow>
          (case (case records of [] \<Rightarrow> (None, None) | r # rs \<Rightarrow> (bucketName r, objectKey r)) of
             (Some bucket, Some key) \<Rightarrow>
               (if bucket = [] \<or> key = []
                then (Inr (), logTo (ConsoleError [Text (js ''Invalid event format'')]) st)
                else
                  (case decodeURIComponent env (replacePlus key) of
                     Inl e \<Rightarrow> (Inl e, st)
                   | Inr key1 \<Rightarrow>
                       (case getObject env bucket key1 (world st) of
                          (Inl e, w) \<Rightarrow> (Inl e, st\<lparr>world := w\<rparr>)
                        | (Inr body, w) \<Rightarrow>
                            (case streamToBuffer body of
                               Inl e \<Rightarrow> (Inl e, st\<lparr>world := w\<rparr>)
                             | Inr buffer \<Rightarrow>
                                 (case xlsxRead env buffer of
                                    Inl e \<Rightarrow> (Inl e, st\<lparr>world := w\<rparr>)
                                  | Inr workbook \<Rightarrow> processWorkbook env workbook (st\<lparr>world := w\<rparr>))))))
           | _ \<Rightarrow> (Inr (), logTo (ConsoleError [Text (js ''Invalid event format'')]) st)))"

text \<open>
  The handler: the \<^verbatim>\<open>try\<close> block with its \<^verbatim>\<open>catch\<close>. The result \<open>Inl e\<close> would be
  a rejected promise, an exception reaching the caller of the handler.
\<close>

definition handler ::
  "('w, 'sheet) env \<Rightarrow> event \<Rightarrow> 'w state \<Rightarrow> (exn + unit) \<times> 'w state" where
  "handler env event st =
     (case handlerBody env event st of
        (Inl err, st1) \<Rightarrow> (Inr (), logTo (ConsoleError [Text (js ''Lambda failed:''), Caught err]) st1)
      | (Inr u, st1) \<Rightarrow> (Inr (), st1))"

section \<open>Notions of the specification\<close>

text \<open>"One or more non-space non-\<open>@\<close> characters" and "one or more non-space characters".\<close>

definition nonSpaceNonAt :: "jsstring \<Rightarrow> bool" where
  "nonSpaceNonAt s = (s \<noteq> [] \<and> list_all (\<lambda>c. \<not> isWhiteSpace c \<and> c \<noteq> 0x40) s)"

definition nonSpace :: "jsstring \<Rightarrow> bool" where
  "nonSpace s = (s \<noteq> [] \<and> list_all (\<lambda>c. \<not> isWhiteSpace c) s)"

text \<open>
  The email pattern in the words of the specification: one or more non-space non-\<open>@\<close>
  characters, \<open>@\<close>, one or more non-space non-\<open>@\<close> characters, a dot, one or more
  non-space characters.
\<close>

definition specEmailRegex :: regex where
  "specEmailRegex =
     Seq (Plus (NoneOf [WhiteSpace, Lit 0x40]))
       (Seq (Chr 0x40)
         (Seq (Plus (NoneOf [WhiteSpace, Lit 0x40]))
           (Seq (Chr 0x2E)
             (Plus (NoneOf [WhiteSpace])))))"

text \<open>
  The five checks of the validator taken one at a time, each the condition of one
  \<^verbatim>\<open>if\<close> of \<^verbatim>\<open>validateUser\<close>, and the reason of the first check in their order
  that fails.
\<close>

definition userIdFails :: "row \<Rightarrow> bool" where
  "userIdFails user \<longleftrightarrow>
     \<not> truthy (getProp user ''userId'') \<or>
     (typeof (getProp user ''userId'') \<noteq> TString \<and> typeof (getProp user ''userId'') \<noteq> TNumber)"

definition nameFails :: "row \<Rightarrow> bool" where
  "nameFails user \<longleftrightarrow>
     \<not> truthy (getProp user ''name'') \<or> typeof (getProp user ''name'') \<noteq> TString"

definition emailFails :: "row \<Rightarrow> bool" where
  "emailFails user \<longleftrightarrow>
     \<not> truthy (getProp user ''email'') \<or> typeof (getProp user ''email'') \<noteq> TString \<or>
     \<not> isValidEmail (String_of (getProp user ''email''))"

definition urlFails :: "row \<Rightarrow> bool" where
  "urlFails user \<longleftrightarrow>
     truthy (getProp user ''profileImageUrl'') \<and>
     \<not> isValidUrl (String_of (getProp user ''profileImageUrl''))"

definition checksInOrder :: "((row \<Rightarrow> bool) \<times> string) list" where
  "checksInOrder =
     [(\<lambda>user. isRowEmpty (Some user), reasonEmpty),
      (userIdFails, reasonUserId),
      (nameFails, reasonName),
      (emailFails, reasonEmail),
      (urlFails, reasonUrl)]"

definition firstFailure :: "row \<Rightarrow> string option" where
  "firstFailure user = map_option snd (find (\<lambda>(check, reason). check user) checksInOrder)"

text \<open>
  The world after a sequence of commands has been sent, whatever each send answered:
  nothing undoes a send.
\<close>

definition worldAfter :: "('w, 'sheet) env \<Rightarrow> 'w \<Rightarrow> command list \<Rightarrow> 'w" where
  "worldAfter env w cmds = foldl (\<lambda>w cmd. snd (dynamoSend env cmd w)) w cmds"

text \<open>The command that carries one batch.\<close>

definition batchCommand :: "writeRequest list option \<Rightarrow> command" where
  "batchCommand batch = BatchWriteItemCommand [(TABLE_NAME, batch)]"

section \<open>Example collaborators\<close>

text \<open>
  Collaborators for the examples below: the object is found, the workbook has one sheet
  with the given rows, and the world counts the sends to the table; the send numbered
  \<open>failAt\<close> (from \<open>0\<close>) is rejected.
\<close>

definition exampleEnv :: "row list \<Rightarrow> nat \<Rightarrow> (nat, unit) env" where
  "exampleEnv rows failAt =
     \<lparr>getObject = (\<lambda>bucket key w. (Inr \<lparr>chunksOf = [], failure = None\<rparr>, w)),
      decodeURIComponent = (\<lambda>key. Inr key),
      xlsxRead = (\<lambda>buffer. Inr \<lparr>SheetNames = Some [js ''Sheet1''], Sheets = (\<lambda>name. Some ())\<rparr>),
      sheet_to_json = (\<lambda>sheet. Inr (Some rows)),
      dynamoSend = (\<lambda>cmd w. (if w = failAt then Some (Thrown (JStr (js ''write failed''))) else None,
                               Suc w))\<rparr>"

definition exampleEvent :: event where
  "exampleEvent =
     \<lparr>Records = Some [\<lparr>bucketName = Some (js ''uploads''), objectKey = Some (js ''users.xlsx'')\<rparr>]\<rparr>"

definition initialState :: "nat state" where
  "initialState = \<lparr>world = 0, console = [], issued = []\<rparr>"

definition validRow :: row where
  "validRow =
     [(''userId'', JNum (SafeInt False 42)),
      (''name'', JStr (js ''Ann'')),
      (''email'', JStr (js ''ann@x.io''))]"

definition invalidRow :: row where
  "invalidRow =
     [(''userId'', JStr (js ''u2'')),
      (''name'', JStr (js ''Bob'')),
      (''email'', JStr (js ''bob@x''))]"

section \<open>Properties of the regular expressions\<close>

lemma matches_Seq:
  "matches (Seq r1 r2) s \<longleftrightarrow> (\<exists>u v. s = u @ v \<and> matches r1 u \<and> matches r2 v)"
proof
  assume "matches (Seq r1 r2) s"
  then obtain i where "matches r1 (take i s)" "matches r2 (drop i s)"
    unfolding matches.simps(3) list_ex_iff by blast
  then show "\<exists>u v. s = u @ v \<and> matches r1 u \<and> matches r2 v"
    by (metis append_take_drop_id)
next
  assume "\<exists>u v. s = u @ v \<and> matches r1 u \<and> matches r2 v"
  then obtain u v where s: "s = u @ v" and m: "matches r1 u" "matches r2 v"
    by blast
  have "length u \<in> set [0..<Suc (length s)]"
    by (simp add: s)
  moreover have "matches r1 (take (length u) s) \<and> matches r2 (drop (length u) s)"
    by (simp add: s m)
  ultimately show "matches (Seq r1 r2) s"
    unfolding matches.simps(3) list_ex_iff by blast
qed

lemma matches_NoneOf:
  "matches (NoneOf cs) s \<longleftrightarrow> (\<exists>c. s = [c] \<and> list_all (\<lambda>k. \<not> inClass k c) cs)"
  by (auto simp: matches.simps(2) list_ex_iff list_all_iff split: list.splits)

lemma matches_Plus_Nil: "\<not> matches (Plus r) []"
  by (subst matches.simps(5)) simp

lemma matches_Plus_NoneOf_Cons:
  "matches (Plus (NoneOf cs)) (c # t) \<longleftrightarrow>
     list_all (\<lambda>k. \<not> inClass k c) cs \<and> (t = [] \<or> matches (Plus (NoneOf cs)) t)"
proof
  assume a: "matches (Plus (NoneOf cs)) (c # t)"
  have "\<exists>i \<in> set [1..<Suc (length (c # t))]. matches (NoneOf cs) (take i (c # t)) \<and>
          (drop i (c # t) = [] \<or> matches (Plus (NoneOf cs)) (drop i (c # t)))"
    using matches.simps(5)[THEN iffD1, OF a] unfolding list_ex_iff .
  then obtain i where m: "i \<in> set [1..<Suc (length (c # t))]"
    and h: "matches (NoneOf cs) (take i (c # t))"
    and k: "drop i (c # t) = [] \<or> matches (Plus (NoneOf cs)) (drop i (c # t))"
    by blast
  from m have "i \<in> {1..<Suc (length (c # t))}"
    by (simp only: set_upt)
  then have i: "1 \<le> i" "i \<le> Suc (length t)"
    by simp_all
  from i obtain j where j: "i = Suc j" by (cases i) auto
  from h have "take j t = []" and ok: "list_all (\<lambda>k. \<not> inClass k c) cs"
    by (auto simp: matches_NoneOf j)
  with i j have "j = 0 \<or> t = []" by auto
  with k j ok show "list_all (\<lambda>k. \<not> inClass k c) cs \<and> (t = [] \<or> matches (Plus (NoneOf cs)) t)"
    by auto
next
  assume a: "list_all (\<lambda>k. \<not> inClass k c) cs \<and> (t = [] \<or> matches (Plus (NoneOf cs)) t)"
  have "(1::nat) \<in> set [1..<Suc (length (c # t))]"
    by (simp only: set_upt atLeastLessThan_iff length_Cons) simp
  moreover have "matches (NoneOf cs) (take 1 (c # t))"
    using a by (simp add: matches_NoneOf)
  moreover have "drop 1 (c # t) = [] \<or> matches (Plus (NoneOf cs)) (drop 1 (c # t))"
    using a by simp
  ultimately show "matches (Plus (NoneOf cs)) (c # t)"
    by (subst matches.simps(5)) (unfold list_ex_iff, blast)
qed

lemma matches_Plus_NoneOf:
  "matches (Plus (NoneOf cs)) s \<longleftrightarrow>
     s \<noteq> [] \<and> list_all (\<lambda>c. list_all (\<lambda>k. \<not> inClass k c) cs) s"
proof (induction s)
  case Nil
  show ?case by (simp add: matches_Plus_Nil)
next
  case (Cons c t)
  show ?case
  proof (cases t)
    case Nil
    then show ?thesis by (simp add: matches_Plus_NoneOf_Cons)
  next
    case (Cons a list)
    then have "t \<noteq> []" by simp
    then show ?thesis
      using Cons.IH by (simp add: matches_Plus_NoneOf_Cons)
  qed
qed

lemma matches_Chr_Seq: "matches (Seq (Chr a) r) s \<longleftrightarrow> (\<exists>t. s = a # t \<and> matches r t)"
  by (auto simp: matches_Seq matches.simps(1))

lemma matches_Opt_Seq:
  "matches (Seq (Opt r1) r2) s \<longleftrightarrow> matches r2 s \<or> matches (Seq r1 r2) s"
  by (auto simp: matches_Seq matches.simps(4))

lemma matches_lits: "matches (lits p r) s \<longleftrightarrow> (\<exists>t. s = p @ t \<and> matches r t)"
  by (induction p arbitrary: s) (auto simp: matches_Chr_Seq)

lemma plusClass_email:
  "matches (Plus (NoneOf [WhiteSpace, Lit 0x40])) s \<longleftrightarrow> nonSpaceNonAt s"
  by (simp add: matches_Plus_NoneOf nonSpaceNonAt_def)

lemma plusClass_ws:
  "matches (Plus (NoneOf [WhiteSpace])) s \<longleftrightarrow> nonSpace s"
  by (simp add: matches_Plus_NoneOf nonSpace_def)

lemma isValidEmail_iff:
  "isValidEmail s \<longleftrightarrow>
     (\<exists>l d t. s = l @ [0x40] @ d @ [0x2E] @ t \<and> nonSpaceNonAt l \<and> nonSpaceNonAt d \<and> nonSpaceNonAt t)"
proof -
  have "isValidEmail s \<longleftrightarrow>
      (\<exists>l v. s = l @ v \<and> nonSpaceNonAt l \<and>
         (\<exists>w. v = 0x40 # w \<and>
            (\<exists>d x. w = d @ x \<and> nonSpaceNonAt d \<and>
               (\<exists>t. x = 0x2E # t \<and> nonSpaceNonAt t))))"
    unfolding isValidEmail_def emailRegex_def
    by (simp only: matches_Seq[of "Plus r" for r] matches_Chr_Seq plusClass_email)
  also have "\<dots> \<longleftrightarrow>
      (\<exists>l d t. s = l @ [0x40] @ d @ [0x2E] @ t \<and> nonSpaceNonAt l \<and> nonSpaceNonAt d \<and> nonSpaceNonAt t)"
    (is "?A \<longleftrightarrow> ?B")
  proof
    assume ?A
    then obtain l d t where "s = l @ (0x40 # (d @ (0x2E # t)))"
      "nonSpaceNonAt l" "nonSpaceNonAt d" "nonSpaceNonAt t"
      by blast
    then show ?B by auto
  next
    assume ?B
    then obtain l d t where "s = l @ [0x40] @ d @ [0x2E] @ t"
      "nonSpaceNonAt l" "nonSpaceNonAt d" "nonSpaceNonAt t"
      by blast
    then have "s = l @ (0x40 # (d @ (0x2E # t))) \<and> nonSpaceNonAt l \<and> nonSpaceNonAt d \<and> nonSpaceNonAt t"
      by simp
    then show ?A by blast
  qed
  finally show ?thesis .
qed

lemma isValidUrl_iff:
  "isValidUrl s \<longleftrightarrow>
     (\<exists>t. (s = js ''http://'' @ t \<or> s = js ''https://'' @ t) \<and> nonSpace t)"
  (is "_ \<longleftrightarrow> ?B")
proof -
  have "isValidUrl s \<longleftrightarrow>
     (\<exists>v. s = js ''http'' @ v \<and>
        ((\<exists>t. v = js ''://'' @ t \<and> nonSpace t) \<or>
         (\<exists>w. v = 0x73 # w \<and> (\<exists>t. w = js ''://'' @ t \<and> nonSpace t))))"
    unfolding isValidUrl_def urlRegex_def
    by (simp only: matches_lits matches_Opt_Seq matches_Chr_Seq plusClass_ws)
  also have "\<dots> \<longleftrightarrow>
     (\<exists>t. (s = js ''http'' @ js ''://'' @ t \<or> s = js ''http'' @ 0x73 # js ''://'' @ t) \<and> nonSpace t)"
    by blast
  also have "\<dots> \<longleftrightarrow> ?B"
    by (simp add: js_def)
  finally show ?thesis .
qed

section \<open>Properties of the row validator\<close>

lemma of_char_lt: "(of_char c :: nat) < 65536"
proof -
  have "(of_char c :: nat) mod 256 < 256" by simp
  then have "(of_char c :: nat) < 256" by (simp only: of_char_mod_256)
  then show ?thesis by linarith
qed

lemma js_inject: "js a = js b \<longleftrightarrow> a = b"
proof -
  have "inj (\<lambda>c. (of_nat (of_char c) :: 16 word))"
  proof (rule injI)
    fix x y :: char
    assume "(of_nat (of_char x) :: 16 word) = of_nat (of_char y)"
    then have "take_bit 16 (of_char x :: nat) = take_bit 16 (of_char y :: nat)"
      by (simp add: word_of_nat_eq_iff)
    then have "(of_char x :: nat) = of_char y"
      using of_char_lt[of x] of_char_lt[of y] by (simp add: take_bit_nat_eq_self)
    then show "x = y" by simp
  qed
  then show ?thesis
    unfolding js_def by (simp add: inj_map_eq_map)
qed

lemma rowError_eq: "rowError i r = rowError i r' \<longleftrightarrow> r = r'"
  by (simp add: rowError_def js_inject)

lemma reasons_distinct:
  "distinct [reasonEmpty, reasonUserId, reasonName, reasonEmail, reasonUrl]"
  by (simp add: reasonEmpty_def reasonUserId_def reasonName_def reasonEmail_def reasonUrl_def)

lemma reason_neq:
  "reasonEmpty \<noteq> reasonUserId" "reasonEmpty \<noteq> reasonName" "reasonEmpty \<noteq> reasonEmail" "reasonEmpty \<noteq> reasonUrl"
  "reasonUserId \<noteq> reasonEmpty" "reasonUserId \<noteq> reasonName" "reasonUserId \<noteq> reasonEmail" "reasonUserId \<noteq> reasonUrl"
  "reasonName \<noteq> reasonEmpty" "reasonName \<noteq> reasonUserId" "reasonName \<noteq> reasonEmail" "reasonName \<noteq> reasonUrl"
  "reasonEmail \<noteq> reasonEmpty" "reasonEmail \<noteq> reasonUserId" "reasonEmail \<noteq> reasonName" "reasonEmail \<noteq> reasonUrl"
  "reasonUrl \<noteq> reasonEmpty" "reasonUrl \<noteq> reasonUserId" "reasonUrl \<noteq> reasonName" "reasonUrl \<noteq> reasonEmail"
  using reasons_distinct by auto

lemma rowError_not_valid:
  "rowError i r \<noteq> \<lparr>valid = True, error = None\<rparr>"
  "\<lparr>valid = True, error = None\<rparr> \<noteq> rowError i r"
  by (simp_all add: rowError_def)

lemma validateUser_userId:
  assumes "\<not> isRowEmpty (Some u)"
  shows "validateUser (Some u) i = rowError i reasonUserId \<longleftrightarrow>
           \<not> truthy (getProp u ''userId'') \<or>
           (typeof (getProp u ''userId'') \<noteq> TString \<and> typeof (getProp u ''userId'') \<noteq> TNumber)"
  using assms
  by (simp add: rowError_eq rowError_not_valid reason_neq)

lemma falsy_cases:
  "\<not> truthy v \<or> (typeof v \<noteq> TString \<and> typeof v \<noteq> TNumber) \<longleftrightarrow>
     (case v of JStr s \<Rightarrow> s = [] | JNum n \<Rightarrow> n = NaN \<or> n = SafeInt False 0 \<or> n = SafeInt True 0 | _ \<Rightarrow> True)"
  apply (cases v)
  apply simp_all
  subgoal for n by (cases n) auto
  done


lemma getProp_absent: "map_of u k = None \<Longrightarrow> getProp u k = JUndefined"
  by (simp add: getProp_def)

text \<open>
  Claim C2 as stated fails: it says that, of the rows that are not empty, the validator
  reports "Missing or invalid 'userId'" only when \<open>userId\<close> is absent, of another type than
  string or number, or the empty string, and that every numeric \<open>userId\<close> passes. A row
  whose \<open>userId\<close> is the number \<open>0\<close> is present and a number, yet the test \<^verbatim>\<open>!user.userId\<close>
  rejects it.
\<close>

theorem C2_counterexample:
  "\<not> isRowEmpty (Some [(''userId'', JNum (SafeInt False 0)),
                       (''name'', JStr (js ''Ann'')),
                       (''email'', JStr (js ''ann@example.com''))]) \<and>
   typeof (getProp [(''userId'', JNum (SafeInt False 0)),
                    (''name'', JStr (js ''Ann'')),
                    (''email'', JStr (js ''ann@example.com''))] ''userId'') = TNumber \<and>
   validateUser (Some [(''userId'', JNum (SafeInt False 0)),
                       (''name'', JStr (js ''Ann'')),
                       (''email'', JStr (js ''ann@example.com''))]) 0 =
     \<lparr>valid = False, error = Some (js (''Row 2: Missing or invalid 'userId'' @ [CHR 0x27]))\<rparr>"
  by (simp add: isRowEmpty_def Object_values_def getProp_def rowError_def reasonUserId_def
      digits.simps js_def)

text \<open>
  Claim C2, amended: for every row that passes the emptiness check, the validator reports
  "Missing or invalid 'userId'" if and only if \<open>userId\<close> is falsy or of a type other than
  string or number, that is absent (\<^verbatim>\<open>undefined\<close>), \<^verbatim>\<open>null\<close>, a boolean, the empty
  string, or one of the numbers \<open>NaN\<close>, \<open>0\<close> and \<open>-0\<close>. Every other number passes the check.
\<close>

theorem C2_userId_check:
  assumes "\<not> isRowEmpty (Some u)"
  shows "(validateUser (Some u) i = rowError i reasonUserId \<longleftrightarrow>
            getProp u ''userId'' = JUndefined \<or>
            getProp u ''userId'' = JNull \<or>
            (\<exists>b. getProp u ''userId'' = JBool b) \<or>
            getProp u ''userId'' = JStr [] \<or>
            getProp u ''userId'' = JNum NaN \<or>
            getProp u ''userId'' = JNum (SafeInt False 0) \<or>
            getProp u ''userId'' = JNum (SafeInt True 0)) \<and>
         (map_of u ''userId'' = None \<longrightarrow> validateUser (Some u) i = rowError i reasonUserId) \<and>
         (typeof (getProp u ''userId'') \<noteq> TString \<and> typeof (getProp u ''userId'') \<noteq> TNumber \<longrightarrow>
            validateUser (Some u) i = rowError i reasonUserId) \<and>
         (\<forall>n. getProp u ''userId'' = JNum n \<and> n \<noteq> NaN \<and> n \<noteq> SafeInt False 0 \<and> n \<noteq> SafeInt True 0 \<longrightarrow>
            validateUser (Some u) i \<noteq> rowError i reasonUserId)"
proof -
  let ?v = "getProp u ''userId''"
  have a: "validateUser (Some u) i = rowError i reasonUserId \<longleftrightarrow>
           \<not> truthy ?v \<or> (typeof ?v \<noteq> TString \<and> typeof ?v \<noteq> TNumber)"
    by (rule validateUser_userId[OF assms])
  have b: "(\<not> truthy ?v \<or> (typeof ?v \<noteq> TString \<and> typeof ?v \<noteq> TNumber)) \<longleftrightarrow>
           ?v = JUndefined \<or> ?v = JNull \<or> (\<exists>b. ?v = JBool b) \<or> ?v = JStr [] \<or>
           ?v = JNum NaN \<or> ?v = JNum (SafeInt False 0) \<or> ?v = JNum (SafeInt True 0)"
    unfolding falsy_cases by (cases ?v) (auto split: jsval.splits)
  have c: "map_of u ''userId'' = None \<longrightarrow> ?v = JUndefined"
    by (simp add: getProp_absent)
  have d: "validateUser (Some u) i = rowError i reasonUserId \<longleftrightarrow>
           ?v = JUndefined \<or> ?v = JNull \<or> (\<exists>b. ?v = JBool b) \<or> ?v = JStr [] \<or>
           ?v = JNum NaN \<or> ?v = JNum (SafeInt False 0) \<or> ?v = JNum (SafeInt True 0)"
    using a b by blast
  have e: "typeof ?v \<noteq> TString \<and> typeof ?v \<noteq> TNumber \<longrightarrow>
           validateUser (Some u) i = rowError i reasonUserId"
    using a by blast
  have f: "\<forall>n. ?v = JNum n \<and> n \<noteq> NaN \<and> n \<noteq> SafeInt False 0 \<and> n \<noteq> SafeInt True 0 \<longrightarrow>
           validateUser (Some u) i \<noteq> rowError i reasonUserId"
    unfolding d by (auto simp del: validateUser.simps)
  from c d have g: "map_of u ''userId'' = None \<longrightarrow> validateUser (Some u) i = rowError i reasonUserId"
    by blast
  from d g e f show ?thesis
    by blast
qed

text \<open>
  A row whose \<open>userId\<close> is the number \<open>7\<close> passes the check; a row without \<open>userId\<close> fails it.
\<close>

theorem C2_userId_check_witness:
  "\<not> isRowEmpty (Some [(''userId'', JNum (SafeInt False 7)), (''name'', JStr (js ''Ann''))]) \<and>
   validateUser (Some [(''userId'', JNum (SafeInt False 7)), (''name'', JStr (js ''Ann''))]) 0
     \<noteq> rowError 0 reasonUserId \<and>
   \<not> isRowEmpty (Some [(''name'', JStr (js ''Ann''))]) \<and>
   validateUser (Some [(''name'', JStr (js ''Ann''))]) 0 = rowError 0 reasonUserId"
proof -
  have e1: "\<not> isRowEmpty (Some [(''userId'', JNum (SafeInt False 7)), (''name'', JStr (js ''Ann''))])"
    by (simp add: isRowEmpty_def Object_values_def)
  have e2: "\<not> isRowEmpty (Some [(''name'', JStr (js ''Ann''))])"
    by (simp add: isRowEmpty_def Object_values_def js_def)
  show ?thesis
    using C2_userId_check[OF e1, of 0] C2_userId_check[OF e2, of 0] e1 e2
    by (simp add: getProp_def del: validateUser.simps)
qed

lemma validateUser_email:
  assumes "validateUser (Some u) i \<noteq> rowError i reasonEmpty"
    and "validateUser (Some u) i \<noteq> rowError i reasonUserId"
    and "validateUser (Some u) i \<noteq> rowError i reasonName"
  shows "validateUser (Some u) i \<noteq> rowError i reasonEmail \<longleftrightarrow>
           truthy (getProp u ''email'') \<and> typeof (getProp u ''email'') = TString \<and>
           isValidEmail (String_of (getProp u ''email''))"
  using assms
  by (auto simp: rowError_eq rowError_not_valid reason_neq split: if_splits)

lemma string_value: "typeof v = TString \<longleftrightarrow> (\<exists>s. v = JStr s)"
  by (cases v) auto

lemma nonSpaceNonAt_nonempty: "nonSpaceNonAt l \<Longrightarrow> l \<noteq> []"
  by (simp add: nonSpaceNonAt_def)

text \<open>
  Claim C3 as stated fails: it gives the last group of the email pattern as "one or more
  non-space characters". The pattern of the source excludes \<open>@\<close> there too, so the
  string \<open>a@b.c@d\<close>, which the pattern of the claim matches, is rejected.
\<close>

theorem C3_counterexample:
  "\<not> isRowEmpty (Some [(''userId'', JStr (js ''u1'')),
                       (''name'', JStr (js ''Ann'')),
                       (''email'', JStr (js ''a@b.c@d''))]) \<and>
   getProp [(''userId'', JStr (js ''u1'')),
            (''name'', JStr (js ''Ann'')),
            (''email'', JStr (js ''a@b.c@d''))] ''email'' = JStr (js ''a@b.c@d'') \<and>
   matches specEmailRegex (js ''a@b.c@d'') \<and>
   validateUser (Some [(''userId'', JStr (js ''u1'')),
                       (''name'', JStr (js ''Ann'')),
                       (''email'', JStr (js ''a@b.c@d''))]) 0 =
     \<lparr>valid = False, error = Some (js (''Row 2: Invalid 'email'' @ [CHR 0x27]))\<rparr>"
  by code_simp

text \<open>
  Claim C3, amended: for every row reaching the email check (the validator reports none of
  the three earlier reasons), the check passes if and only if \<open>email\<close> is a string made of
  one or more non-space non-\<open>@\<close> characters, \<open>@\<close>, one or more non-space non-\<open>@\<close>
  characters, a dot, and one or more non-space non-\<open>@\<close> characters; otherwise the
  validator reports "Invalid 'email'". In particular \<open>foo@bar\<close> is rejected and
  \<open>foo@bar.com\<close> passes the check.
\<close>

theorem C3_email_check:
  assumes "validateUser (Some u) i \<noteq> rowError i reasonEmpty"
    and "validateUser (Some u) i \<noteq> rowError i reasonUserId"
    and "validateUser (Some u) i \<noteq> rowError i reasonName"
  shows "(validateUser (Some u) i \<noteq> rowError i reasonEmail \<longleftrightarrow>
            (\<exists>l d t. getProp u ''email'' = JStr (l @ js ''@'' @ d @ js ''.'' @ t) \<and>
                     nonSpaceNonAt l \<and> nonSpaceNonAt d \<and> nonSpaceNonAt t)) \<and>
         (getProp u ''email'' = JStr (js ''foo@bar'') \<longrightarrow>
            validateUser (Some u) i = rowError i reasonEmail) \<and>
         (getProp u ''email'' = JStr (js ''foo@bar.com'') \<longrightarrow>
            validateUser (Some u) i \<noteq> rowError i reasonEmail)"
proof -
  let ?e = "getProp u ''email''"
  have a: "validateUser (Some u) i \<noteq> rowError i reasonEmail \<longleftrightarrow>
           truthy ?e \<and> typeof ?e = TString \<and> isValidEmail (String_of ?e)"
    by (rule validateUser_email[OF assms])
  have lit: "js ''@'' = [0x40]" "js ''.'' = [0x2E]"
    by (simp_all add: js_def)
  have b: "truthy ?e \<and> typeof ?e = TString \<and> isValidEmail (String_of ?e) \<longleftrightarrow>
           (\<exists>l d t. ?e = JStr (l @ js ''@'' @ d @ js ''.'' @ t) \<and>
                    nonSpaceNonAt l \<and> nonSpaceNonAt d \<and> nonSpaceNonAt t)"
    (is "?L \<longleftrightarrow> ?R")
  proof
    assume ?L
    then obtain s where s: "?e = JStr s" and v: "isValidEmail s"
      by (auto simp: string_value)
    from v obtain l d t where "s = l @ [0x40] @ d @ [0x2E] @ t"
      "nonSpaceNonAt l" "nonSpaceNonAt d" "nonSpaceNonAt t"
      unfolding isValidEmail_iff by blast
    with s show ?R
      unfolding lit by blast
  next
    assume ?R
    then obtain l d t where s: "?e = JStr (l @ [0x40] @ d @ [0x2E] @ t)"
      and n: "nonSpaceNonAt l" "nonSpaceNonAt d" "nonSpaceNonAt t"
      unfolding lit by blast
    from n have "isValidEmail (l @ [0x40] @ d @ [0x2E] @ t)"
      unfolding isValidEmail_iff by blast
    with s n show ?L
      by (simp add: nonSpaceNonAt_nonempty)
  qed
  have c: "\<not> isValidEmail (js ''foo@bar'')"
    by code_simp
  have d: "isValidEmail (js ''foo@bar.com'')"
    by code_simp
  have e: "js ''foo@bar.com'' \<noteq> []"
    by (simp add: js_def)
  from a b have 1: "validateUser (Some u) i \<noteq> rowError i reasonEmail \<longleftrightarrow>
            (\<exists>l d t. ?e = JStr (l @ js ''@'' @ d @ js ''.'' @ t) \<and>
                     nonSpaceNonAt l \<and> nonSpaceNonAt d \<and> nonSpaceNonAt t)"
    by blast
  from a c have 2: "?e = JStr (js ''foo@bar'') \<longrightarrow> validateUser (Some u) i = rowError i reasonEmail"
    by (auto simp del: validateUser.simps)
  from a d e have 3: "?e = JStr (js ''foo@bar.com'') \<longrightarrow> validateUser (Some u) i \<noteq> rowError i reasonEmail"
    by (auto simp del: validateUser.simps)
  from 1 2 3 show ?thesis by blast
qed


text \<open>
  The row with \<open>email\<close> \<open>foo@bar.com\<close> reaches the email check and passes it.
\<close>

theorem C3_email_check_witness:
  "validateUser (Some [(''userId'', JStr (js ''u1'')), (''name'', JStr (js ''Ann'')),
                       (''email'', JStr (js ''foo@bar.com''))]) 0 \<noteq> rowError 0 reasonEmpty \<and>
   validateUser (Some [(''userId'', JStr (js ''u1'')), (''name'', JStr (js ''Ann'')),
                       (''email'', JStr (js ''foo@bar.com''))]) 0 \<noteq> rowError 0 reasonUserId \<and>
   validateUser (Some [(''userId'', JStr (js ''u1'')), (''name'', JStr (js ''Ann'')),
                       (''email'', JStr (js ''foo@bar.com''))]) 0 \<noteq> rowError 0 reasonName \<and>
   validateUser (Some [(''userId'', JStr (js ''u1'')), (''name'', JStr (js ''Ann'')),
                       (''email'', JStr (js ''foo@bar.com''))]) 0 \<noteq> rowError 0 reasonEmail"
proof -
  let ?u = "[(''userId'', JStr (js ''u1'')), (''name'', JStr (js ''Ann'')),
             (''email'', JStr (js ''foo@bar.com''))]"
  have pre: "\<not> isRowEmpty (Some ?u)" "truthy (getProp ?u ''userId'')"
    "typeof (getProp ?u ''userId'') = TString" "truthy (getProp ?u ''name'')"
    "typeof (getProp ?u ''name'') = TString"
    by (simp_all add: isRowEmpty_def Object_values_def getProp_def js_def)
  have h1: "validateUser (Some ?u) 0 \<noteq> rowError 0 reasonEmpty"
    and h2: "validateUser (Some ?u) 0 \<noteq> rowError 0 reasonUserId"
    and h3: "validateUser (Some ?u) 0 \<noteq> rowError 0 reasonName"
    using pre by (simp_all add: rowError_eq rowError_not_valid reason_neq)
  have e: "getProp ?u ''email'' = JStr (js ''foo@bar.com'')"
    by (simp add: getProp_def)
  from C3_email_check[OF h1 h2 h3] e h1 h2 h3 show ?thesis
    by blast
qed

text \<open>
  Claim C4: the validator applies its five checks in the order emptiness, \<open>userId\<close>,
  \<open>name\<close>, \<open>email\<close>, \<open>profileImageUrl\<close>; the first check that fails alone determines the
  reason, and the message of every invalid outcome is exactly
  \<open>Row {index + 2}: {reason}\<close>. A row all of whose fields are \<^verbatim>\<open>null\<close>,
  \<^verbatim>\<open>undefined\<close> or the empty string is reported as "Empty row", and every message for
  the row at position \<open>0\<close> starts with \<open>Row 2:\<close>.
\<close>

theorem C4_first_failing_check:
  "validateUser None i = \<lparr>valid = False, error = Some (js ''Row '' @ digits (i + 2) @ js '': Empty row'')\<rparr> \<and>
   validateUser (Some u) i =
     (case firstFailure u of
        None \<Rightarrow> \<lparr>valid = True, error = None\<rparr>
      | Some reason \<Rightarrow>
          \<lparr>valid = False, error = Some (js ''Row '' @ digits (i + 2) @ js '': '' @ js reason)\<rparr>) \<and>
   (list_all (\<lambda>v. v = JNull \<or> v = JUndefined \<or> v = JStr []) (map snd u) \<longrightarrow>
      validateUser (Some u) i =
        \<lparr>valid = False, error = Some (js ''Row '' @ digits (i + 2) @ js '': Empty row'')\<rparr>) \<and>
   (\<forall>msg. error (validateUser user 0) = Some msg \<longrightarrow> take 6 msg = js ''Row 2:'')"
proof -
  have e: "js '': '' @ js reasonEmpty = js '': Empty row''"
    by (simp add: js_def reasonEmpty_def)
  have 1: "validateUser None i =
      \<lparr>valid = False, error = Some (js ''Row '' @ digits (i + 2) @ js '': Empty row'')\<rparr>"
    by (simp add: rowError_def e)
  have 2: "validateUser (Some u) i =
     (case firstFailure u of
        None \<Rightarrow> \<lparr>valid = True, error = None\<rparr>
      | Some reason \<Rightarrow>
          \<lparr>valid = False, error = Some (js ''Row '' @ digits (i + 2) @ js '': '' @ js reason)\<rparr>)"
    by (simp add: firstFailure_def checksInOrder_def userIdFails_def nameFails_def emailFails_def
        urlFails_def rowError_def)
  have 3: "list_all (\<lambda>v. v = JNull \<or> v = JUndefined \<or> v = JStr []) (map snd u) \<longrightarrow>
      validateUser (Some u) i =
        \<lparr>valid = False, error = Some (js ''Row '' @ digits (i + 2) @ js '': Empty row'')\<rparr>"
    by (simp add: isRowEmpty_def Object_values_def rowError_def e)
  have d: "digits (0 + 2) = js ''2''"
    by (simp add: digits.simps js_def)
  have p: "\<And>r msg. error (rowError 0 r) = Some msg \<Longrightarrow> take 6 msg = js ''Row 2:''"
    unfolding rowError_def d by (auto simp: js_def)
  have 4: "\<forall>msg. error (validateUser user 0) = Some msg \<longrightarrow> take 6 msg = js ''Row 2:''"
  proof (cases user)
    case None
    then show ?thesis by (auto dest: p)
  next
    case (Some w)
    show ?thesis
      unfolding Some by (auto dest: p split: if_splits)
  qed
  from 1 2 3 4 show ?thesis by blast
qed


text \<open>
  A row whose fields are all empty lacks \<open>userId\<close>, \<open>name\<close> and \<open>email\<close> as well; at
  position \<open>0\<close> it is reported as \<open>Row 2: Empty row\<close>.
\<close>

theorem C4_first_failing_check_witness:
  "list_all (\<lambda>v. v = JNull \<or> v = JUndefined \<or> v = JStr [])
     (map snd [(''userId'', JStr []), (''email'', JNull)]) \<and>
   validateUser (Some [(''userId'', JStr []), (''email'', JNull)]) 0 =
     \<lparr>valid = False, error = Some (js ''Row 2: Empty row'')\<rparr> \<and>
   take 6 (js ''Row 2: Empty row'') = js ''Row 2:''"
proof -
  let ?u = "[(''userId'', JStr []), (''email'', JNull)]"
  have h: "list_all (\<lambda>v. v = JNull \<or> v = JUndefined \<or> v = JStr []) (map snd ?u)"
    by simp
  have d: "js ''Row '' @ digits (0 + 2) @ js '': Empty row'' = js ''Row 2: Empty row''"
    by (simp add: digits.simps js_def)
  from C4_first_failing_check[of 0 ?u "Some ?u"] h
  have r: "validateUser (Some ?u) 0 = \<lparr>valid = False, error = Some (js ''Row 2: Empty row'')\<rparr>"
    and t: "\<forall>msg. error (validateUser (Some ?u) 0) = Some msg \<longrightarrow> take 6 msg = js ''Row 2:''"
    unfolding d by blast+
  from t have "take 6 (js ''Row 2: Empty row'') = js ''Row 2:''"
    unfolding r by simp
  with h r show ?thesis by blast
qed

lemma validateUser_url:
  assumes "validateUser (Some u) i \<noteq> rowError i reasonEmpty"
    and "validateUser (Some u) i \<noteq> rowError i reasonUserId"
    and "validateUser (Some u) i \<noteq> rowError i reasonName"
    and "validateUser (Some u) i \<noteq> rowError i reasonEmail"
  shows "validateUser (Some u) i =
           (if truthy (getProp u ''profileImageUrl'') \<and>
               \<not> isValidUrl (String_of (getProp u ''profileImageUrl''))
            then rowError i reasonUrl else \<lparr>valid = True, error = None\<rparr>)"
  using assms
  by (auto simp: rowError_eq rowError_not_valid reason_neq split: if_splits)

text \<open>
  Claim C5: for every row reaching the \<open>profileImageUrl\<close> check (the validator reports none
  of the four earlier reasons), the row is accepted when the field is absent or falsy;
  when the field is truthy the row is accepted if and only if the value, as a string, is
  \<open>http://\<close> or \<open>https://\<close> followed by one or more non-space characters, and otherwise
  the validator reports "Invalid 'profileImageUrl'". In particular \<open>ftp://x.com\<close> is
  rejected.
\<close>

theorem C5_url_check:
  assumes "validateUser (Some u) i \<noteq> rowError i reasonEmpty"
    and "validateUser (Some u) i \<noteq> rowError i reasonUserId"
    and "validateUser (Some u) i \<noteq> rowError i reasonName"
    and "validateUser (Some u) i \<noteq> rowError i reasonEmail"
  shows "(map_of u ''profileImageUrl'' = None \<longrightarrow> validateUser (Some u) i = \<lparr>valid = True, error = None\<rparr>) \<and>
         (\<not> truthy (getProp u ''profileImageUrl'') \<longrightarrow>
            validateUser (Some u) i = \<lparr>valid = True, error = None\<rparr>) \<and>
         (truthy (getProp u ''profileImageUrl'') \<longrightarrow>
            (validateUser (Some u) i = \<lparr>valid = True, error = None\<rparr> \<longleftrightarrow>
               (\<exists>t. (String_of (getProp u ''profileImageUrl'') = js ''http://'' @ t \<or>
                     String_of (getProp u ''profileImageUrl'') = js ''https://'' @ t) \<and>
                    nonSpace t))) \<and>
         (validateUser (Some u) i \<noteq> \<lparr>valid = True, error = None\<rparr> \<longrightarrow>
            validateUser (Some u) i = rowError i reasonUrl) \<and>
         (getProp u ''profileImageUrl'' = JStr (js ''ftp://x.com'') \<longrightarrow>
            validateUser (Some u) i = rowError i reasonUrl)"
proof -
  let ?p = "getProp u ''profileImageUrl''"
  let ?r = "validateUser (Some u) i"
  have a: "?r = (if truthy ?p \<and> \<not> isValidUrl (String_of ?p)
                 then rowError i reasonUrl else \<lparr>valid = True, error = None\<rparr>)"
    by (rule validateUser_url[OF assms])
  have 1: "map_of u ''profileImageUrl'' = None \<longrightarrow> ?r = \<lparr>valid = True, error = None\<rparr>"
    unfolding a by (simp add: getProp_absent)
  have 2: "\<not> truthy ?p \<longrightarrow> ?r = \<lparr>valid = True, error = None\<rparr>"
    unfolding a by simp
  have 3: "truthy ?p \<longrightarrow>
            (?r = \<lparr>valid = True, error = None\<rparr> \<longleftrightarrow>
               (\<exists>t. (String_of ?p = js ''http://'' @ t \<or> String_of ?p = js ''https://'' @ t) \<and>
                    nonSpace t))"
    unfolding a isValidUrl_iff[symmetric] by (simp add: rowError_not_valid)
  have 4: "?r \<noteq> \<lparr>valid = True, error = None\<rparr> \<longrightarrow> ?r = rowError i reasonUrl"
    unfolding a by simp
  have f: "\<not> isValidUrl (js ''ftp://x.com'')"
    by code_simp
  have g: "js ''ftp://x.com'' \<noteq> []"
    by (simp add: js_def)
  have 5: "?p = JStr (js ''ftp://x.com'') \<longrightarrow> ?r = rowError i reasonUrl"
    unfolding a using f g by simp
  from 1 2 3 4 5 show ?thesis by blast
qed

text \<open>
  A row with valid \<open>userId\<close>, \<open>name\<close> and \<open>email\<close> and the \<open>profileImageUrl\<close>
  \<open>ftp://x.com\<close> reaches the check and is rejected by it.
\<close>

theorem C5_url_check_witness:
  "validateUser (Some [(''userId'', JStr (js ''u1'')), (''name'', JStr (js ''Ann'')),
                       (''email'', JStr (js ''a@b.io'')),
                       (''profileImageUrl'', JStr (js ''ftp://x.com''))]) 0 \<noteq> rowError 0 reasonEmpty \<and>
   validateUser (Some [(''userId'', JStr (js ''u1'')), (''name'', JStr (js ''Ann'')),
                       (''email'', JStr (js ''a@b.io'')),
                       (''profileImageUrl'', JStr (js ''ftp://x.com''))]) 0 \<noteq> rowError 0 reasonUserId \<and>
   validateUser (Some [(''userId'', JStr (js ''u1'')), (''name'', JStr (js ''Ann'')),
                       (''email'', JStr (js ''a@b.io'')),
                       (''profileImageUrl'', JStr (js ''ftp://x.com''))]) 0 \<noteq> rowError 0 reasonName \<and>
   validateUser (Some [(''userId'', JStr (js ''u1'')), (''name'', JStr (js ''Ann'')),
                       (''email'', JStr (js ''a@b.io'')),
                       (''profileImageUrl'', JStr (js ''ftp://x.com''))]) 0 \<noteq> rowError 0 reasonEmail \<and>
   validateUser (Some [(''userId'', JStr (js ''u1'')), (''name'', JStr (js ''Ann'')),
                       (''email'', JStr (js ''a@b.io'')),
                       (''profileImageUrl'', JStr (js ''ftp://x.com''))]) 0 = rowError 0 reasonUrl"
proof -
  let ?u = "[(''userId'', JStr (js ''u1'')), (''name'', JStr (js ''Ann'')),
             (''email'', JStr (js ''a@b.io'')),
             (''profileImageUrl'', JStr (js ''ftp://x.com''))]"
  have m: "isValidEmail (js ''a@b.io'')"
    by code_simp
  have pre: "\<not> isRowEmpty (Some ?u)" "truthy (getProp ?u ''userId'')"
    "typeof (getProp ?u ''userId'') = TString" "truthy (getProp ?u ''name'')"
    "typeof (getProp ?u ''name'') = TString" "truthy (getProp ?u ''email'')"
    "typeof (getProp ?u ''email'') = TString" "String_of (getProp ?u ''email'') = js ''a@b.io''"
    by (simp_all add: isRowEmpty_def Object_values_def getProp_def js_def)
  have h1: "validateUser (Some ?u) 0 \<noteq> rowError 0 reasonEmpty"
    and h2: "validateUser (Some ?u) 0 \<noteq> rowError 0 reasonUserId"
    and h3: "validateUser (Some ?u) 0 \<noteq> rowError 0 reasonName"
    and h4: "validateUser (Some ?u) 0 \<noteq> rowError 0 reasonEmail"
    using pre m by (simp_all add: rowError_eq rowError_not_valid reason_neq)
  have e: "getProp ?u ''profileImageUrl'' = JStr (js ''ftp://x.com'')"
    by (simp add: getProp_def)
  from C5_url_check[OF h1 h2 h3 h4] e h1 h2 h3 h4 show ?thesis
    by blast
qed

section \<open>Properties of the batch partitioner\<close>

lemma chunks_Nil: "chunks n [] = []"
  by (simp add: chunks.simps)

lemma chunks_step: "0 < n \<Longrightarrow> xs \<noteq> [] \<Longrightarrow> chunks n xs = take n xs # chunks n (drop n xs)"
  by (subst chunks.simps) simp

lemma chunks_eq_Nil: "0 < n \<Longrightarrow> chunks n xs = [] \<longleftrightarrow> xs = []"
  by (cases "xs = []") (simp_all add: chunks_Nil chunks_step)

lemma concat_chunks: "0 < n \<Longrightarrow> concat (chunks n xs) = xs"
proof (induction n xs rule: chunks.induct)
  case (1 n xs)
  show ?case
  proof (cases "xs = []")
    case True
    then show ?thesis by (simp add: chunks_Nil)
  next
    case False
    have "concat (chunks n (drop n xs)) = drop n xs"
      using 1 False by simp
    then show ?thesis
      by (simp add: chunks_step[OF 1(2) False])
  qed
qed

lemma nth_chunks:
  "0 < n \<Longrightarrow> j < length (chunks n xs) \<Longrightarrow> chunks n xs ! j = take n (drop (j * n) xs)"
proof (induction n xs arbitrary: j rule: chunks.induct)
  case (1 n xs)
  show ?case
  proof (cases "xs = []")
    case True
    with 1(3) show ?thesis by (simp add: chunks_Nil)
  next
    case False
    note st = chunks_step[OF 1(2) False]
    show ?thesis
    proof (cases j)
      case 0
      then show ?thesis by (simp add: st)
    next
      case (Suc k)
      with 1(3) have k: "k < length (chunks n (drop n xs))"
        by (simp add: st)
      have "chunks n (drop n xs) ! k = take n (drop (k * n) (drop n xs))"
        using 1(1)[of k] 1(2) False k by simp
      then show ?thesis
        by (simp add: st Suc add.commute)
    qed
  qed
qed

lemma length_chunks:
  "0 < n \<Longrightarrow>
   length (chunks n xs) = length xs div n + (if length xs mod n = 0 then 0 else 1)"
proof (induction n xs rule: chunks.induct)
  case (1 n xs)
  note n = 1(2)
  show ?case
  proof (cases "xs = []")
    case True
    then show ?thesis by (simp add: chunks_Nil)
  next
    case False
    note st = chunks_step[OF n False]
    have ih: "length (chunks n (drop n xs)) =
        length (drop n xs) div n + (if length (drop n xs) mod n = 0 then 0 else 1)"
      using 1(1) n False by simp
    show ?thesis
    proof (cases "length xs < n")
      case True
      then have "drop n xs = []" by simp
      moreover have "length xs \<noteq> 0" using False by simp
      ultimately show ?thesis
        using True by (simp add: st chunks_Nil)
    next
      case False
      then have le: "n \<le> length xs" by simp
      have d: "length xs div n = Suc ((length xs - n) div n)"
        using n le by (rule le_div_geq)
      have m: "length xs mod n = (length xs - n) mod n"
        using le by (rule le_mod_geq)
      show ?thesis
        unfolding st d m using ih by simp
    qed
  qed
qed

lemma chunk_start:
  "0 < n \<Longrightarrow> j < length (chunks n xs) \<Longrightarrow> j * n < length xs"
proof (induction n xs arbitrary: j rule: chunks.induct)
  case (1 n xs)
  show ?case
  proof (cases "xs = []")
    case True
    with 1(3) show ?thesis by (simp add: chunks_Nil)
  next
    case False
    note st = chunks_step[OF 1(2) False]
    show ?thesis
    proof (cases j)
      case 0
      then show ?thesis using False by simp
    next
      case (Suc k)
      with 1(3) have k: "k < length (chunks n (drop n xs))"
        by (simp add: st)
      have "k * n < length (drop n xs)"
        using 1(1)[of k] 1(2) False k by simp
      then show ?thesis
        by (simp add: Suc)
    qed
  qed
qed

lemma chunk_index:
  "0 < n \<Longrightarrow> i < length xs \<Longrightarrow> i div n < length (chunks n xs)"
proof (induction n xs arbitrary: i rule: chunks.induct)
  case (1 n xs)
  from 1(3) have ne: "xs \<noteq> []" by auto
  note st = chunks_step[OF 1(2) ne]
  show ?case
  proof (cases "i < n")
    case True
    then show ?thesis by (simp add: st)
  next
    case False
    then have le: "n \<le> i" by simp
    with 1(3) have "i - n < length (drop n xs)" by simp
    then have "(i - n) div n < length (chunks n (drop n xs))"
      using 1(1)[of "i - n"] 1(2) ne by simp
    moreover have "i div n = Suc ((i - n) div n)"
      using 1(2) le by (rule le_div_geq)
    ultimately show ?thesis by (simp add: st)
  qed
qed

lemma chunks_snoc:
  "0 < n \<Longrightarrow> chunks n (xs @ [x]) =
     (if length xs mod n = 0 then chunks n xs @ [[x]]
      else butlast (chunks n xs) @ [last (chunks n xs) @ [x]])"
proof (induction n xs rule: chunks.induct)
  case (1 n xs)
  note n = 1(2)
  show ?case
  proof (cases "xs = []")
    case True
    have "chunks n [x] = [[x]]"
      using n by (simp add: chunks_step[of n "[x]"] chunks_Nil)
    then show ?thesis
      using True by (simp add: chunks_Nil)
  next
    case False
    note st = chunks_step[OF n False]
    have st': "chunks n (xs @ [x]) = take n (xs @ [x]) # chunks n (drop n (xs @ [x]))"
      using n by (rule chunks_step) simp
    show ?thesis
    proof (cases "length xs < n")
      case True
      then have "length xs mod n \<noteq> 0" using False by simp
      moreover have "chunks n xs = [xs]"
        using True by (simp add: st chunks_Nil)
      moreover have "chunks n (xs @ [x]) = [xs @ [x]]"
        using True by (simp add: st' chunks_Nil)
      ultimately show ?thesis by simp
    next
      case ge: False
      have ih: "chunks n (drop n xs @ [x]) =
         (if length (drop n xs) mod n = 0 then chunks n (drop n xs) @ [[x]]
          else butlast (chunks n (drop n xs)) @ [last (chunks n (drop n xs)) @ [x]])"
        using 1(1) n False by simp
      have m: "length (drop n xs) mod n = length xs mod n"
        using ge by (simp add: le_mod_geq)
      have s2: "chunks n (xs @ [x]) = take n xs # chunks n (drop n xs @ [x])"
        using ge by (simp add: st')
      show ?thesis
      proof (cases "length xs mod n = 0")
        case True
        then show ?thesis
          unfolding s2 st ih m by simp
      next
        case nz: False
        then have "length xs \<noteq> n" by auto
        with ge have "drop n xs \<noteq> []" by simp
        then have "chunks n (drop n xs) \<noteq> []"
          using n by (simp add: chunks_eq_Nil)
        then show ?thesis
          unfolding s2 st ih m using nz by simp
      qed
    qed
  qed
qed

lemma arraySet_last:
  "cs \<noteq> [] \<Longrightarrow> arraySet (map Some cs) (length cs - 1) y = map Some (butlast cs @ [y])"
proof -
  assume "cs \<noteq> []"
  then obtain bs l where "cs = bs @ [l]"
    by (metis append_butlast_last_id)
  then show ?thesis
    by (simp add: arraySet_def list_update_append)
qed

lemma chunkStep_chunks:
  "chunkStep (map Some (chunks BATCH_SIZE xs)) x (length xs) =
     map Some (chunks BATCH_SIZE (xs @ [x]))"
proof (cases "length xs mod 25 = 0")
  case True
  then have ci: "length xs div 25 = length (chunks 25 xs)"
    by (simp add: length_chunks)
  have sn: "chunks 25 (xs @ [x]) = chunks 25 xs @ [[x]]"
    using True by (simp add: chunks_snoc)
  show ?thesis
    unfolding chunkStep_def BATCH_SIZE_def ci sn
    by (simp add: arrayGet_def arraySet_def Let_def nth_append list_update_append)
next
  case False
  then have xs: "xs \<noteq> []" by auto
  then have ne: "chunks 25 xs \<noteq> []" by (simp add: chunks_eq_Nil)
  define k where "k = length (chunks 25 xs) - 1"
  have ci: "length xs div 25 = k"
    using False by (simp add: length_chunks k_def)
  have lt: "k < length (chunks 25 xs)"
    using ne by (simp add: k_def)
  have g: "arrayGet (map Some (chunks 25 xs)) k = Some (last (chunks 25 xs))"
    using ne lt by (simp add: arrayGet_def last_conv_nth k_def)
  have u: "arraySet (map Some (chunks 25 xs)) k (last (chunks 25 xs) @ [x]) =
      map Some (butlast (chunks 25 xs) @ [last (chunks 25 xs) @ [x]])"
    unfolding k_def by (rule arraySet_last[OF ne])
  have sn: "chunks 25 (xs @ [x]) = butlast (chunks 25 xs) @ [last (chunks 25 xs) @ [x]]"
    using False by (simp add: chunks_snoc)
  show ?thesis
    unfolding chunkStep_def BATCH_SIZE_def ci sn
    by (simp add: g u Let_def)
qed

lemma reduce_chunkStep:
  "reduce chunkStep ys (length xs) (map Some (chunks BATCH_SIZE xs)) =
     map Some (chunks BATCH_SIZE (xs @ ys))"
proof (induction ys arbitrary: xs)
  case Nil
  show ?case by simp
next
  case (Cons y ys)
  have "reduce chunkStep (y # ys) (length xs) (map Some (chunks BATCH_SIZE xs)) =
        reduce chunkStep ys (length (xs @ [y])) (map Some (chunks BATCH_SIZE (xs @ [y])))"
    by (simp add: chunkStep_chunks)
  also have "\<dots> = map Some (chunks BATCH_SIZE ((xs @ [y]) @ ys))"
    by (rule Cons.IH)
  finally show ?case by simp
qed

lemma batches_chunks: "batches items = map Some (chunks BATCH_SIZE items)"
  using reduce_chunkStep[of items "[]"] by (simp add: batches_def chunks_Nil)

lemma chunk_bounds:
  assumes "0 < n" and "j < length (chunks n xs)"
  shows "chunks n xs ! j \<noteq> []" and "length (chunks n xs ! j) \<le> n"
    and "Suc j < length (chunks n xs) \<Longrightarrow> length (chunks n xs ! j) = n"
proof -
  have s: "j * n < length xs"
    using assms by (rule chunk_start)
  have e: "chunks n xs ! j = take n (drop (j * n) xs)"
    using assms by (rule nth_chunks)
  show "chunks n xs ! j \<noteq> []"
    unfolding e using s assms(1) by simp
  show "length (chunks n xs ! j) \<le> n"
    unfolding e by simp
  assume "Suc j < length (chunks n xs)"
  with assms(1) have "Suc j * n < length xs"
    by (rule chunk_start)
  then show "length (chunks n xs ! j) = n"
    unfolding e by simp
qed

lemma chunk_item:
  assumes "0 < n" and "i < length xs"
  shows "i mod n < length (chunks n xs ! (i div n))"
    and "chunks n xs ! (i div n) ! (i mod n) = xs ! i"
proof -
  have j: "i div n < length (chunks n xs)"
    using assms by (rule chunk_index)
  have e: "chunks n xs ! (i div n) = take n (drop (i div n * n) xs)"
    using assms(1) j by (rule nth_chunks)
  have m: "i mod n < n"
    using assms(1) by simp
  have d: "i div n * n + i mod n = i"
    by simp
  then have l: "i mod n < length xs - i div n * n"
    using assms(2) by linarith
  show "i mod n < length (chunks n xs ! (i div n))"
    unfolding e using m l by simp
  have "i div n * n \<le> length xs"
    using d assms(2) by linarith
  then show "chunks n xs ! (i div n) ! (i mod n) = xs ! i"
    unfolding e using m by (simp add: d)
qed

lemma chunks_52:
  assumes "length xs = 52"
  shows "map length (chunks 25 xs) = [25, 25, 2]"
proof -
  have a: "xs \<noteq> []" "drop 25 xs \<noteq> []" "drop 50 xs \<noteq> []" "drop 75 xs = []"
    using assms by auto
  have c1: "chunks 25 xs = take 25 xs # chunks 25 (drop 25 xs)"
    using a(1) by (simp add: chunks_step)
  have c2: "chunks 25 (drop 25 xs) = take 25 (drop 25 xs) # chunks 25 (drop 50 xs)"
    using chunks_step[OF _ a(2), of 25] by simp
  have c3: "chunks 25 (drop 50 xs) = take 25 (drop 50 xs) # chunks 25 (drop 75 xs)"
    using chunks_step[OF _ a(3), of 25] by simp
  show ?thesis
    unfolding c1 c2 c3 a(4) using assms by (simp add: chunks_Nil)
qed

text \<open>
  Claim C1: with the maximum batch size 25, the partitioner places the item at source index
  \<open>i\<close> into the batch at position \<open>i div 25\<close>. The batches have no holes and are the
  contiguous chunking of the input: concatenated in order they give the input, every batch
  is non-empty with at most 25 items, every batch but the last has exactly 25, 52 items
  give batches of sizes 25, 25 and 2, and the empty input gives no batch.
\<close>

theorem C1_batches:
  "\<exists>bs. batches items = map Some bs \<and>
        bs = chunks 25 items \<and>
        concat bs = items \<and>
        (\<forall>b \<in> set bs. b \<noteq> [] \<and> length b \<le> 25) \<and>
        (\<forall>j. Suc j < length bs \<longrightarrow> length (bs ! j) = 25) \<and>
        (\<forall>i < length items.
           i div 25 < length bs \<and> i mod 25 < length (bs ! (i div 25)) \<and>
           bs ! (i div 25) ! (i mod 25) = items ! i) \<and>
        (length items = 52 \<longrightarrow> map length bs = [25, 25, 2]) \<and>
        (items = [] \<longrightarrow> bs = [])"
proof -
  let ?bs = "chunks 25 items"
  have n: "(0::nat) < 25" by simp
  have 1: "batches items = map Some ?bs"
    by (simp add: batches_chunks BATCH_SIZE_def)
  have 2: "concat ?bs = items"
    using n by (rule concat_chunks)
  have 3: "\<forall>b \<in> set ?bs. b \<noteq> [] \<and> length b \<le> 25"
  proof
    fix b assume "b \<in> set ?bs"
    then obtain j where "j < length ?bs" "b = ?bs ! j"
      by (auto simp: in_set_conv_nth)
    then show "b \<noteq> [] \<and> length b \<le> 25"
      using chunk_bounds(1,2)[OF n, of j items] by simp
  qed
  have 4: "\<forall>j. Suc j < length ?bs \<longrightarrow> length (?bs ! j) = 25"
    using chunk_bounds(3)[OF n, of _ items] by auto
  have 5: "\<forall>i < length items.
           i div 25 < length ?bs \<and> i mod 25 < length (?bs ! (i div 25)) \<and>
           ?bs ! (i div 25) ! (i mod 25) = items ! i"
    using chunk_index[OF n, of _ items] chunk_item[OF n, of _ items] by blast
  have 6: "length items = 52 \<longrightarrow> map length ?bs = [25, 25, 2]"
    using chunks_52 by blast
  have 7: "items = [] \<longrightarrow> ?bs = []"
    by (simp add: chunks_Nil)
  show ?thesis
    by (intro exI[of _ ?bs] conjI refl 1 2 3 4 5 6 7)
qed

text \<open>Fifty-two items are partitioned into batches of sizes 25, 25 and 2.\<close>

theorem C1_batches_witness:
  "length (replicate 52 (0::nat)) = 52 \<and>
   (\<exists>bs. batches (replicate 52 (0::nat)) = map Some bs \<and> map length bs = [25, 25, 2] \<and>
         concat bs = replicate 52 0)"
proof -
  let ?xs = "replicate 52 (0::nat)"
  have l: "length ?xs = 52" by simp
  have "\<exists>bs. batches ?xs = map Some bs \<and> map length bs = [25, 25, 2] \<and> concat bs = ?xs"
    using C1_batches[of ?xs]
  proof (elim exE conjE)
    fix bs
    assume "batches ?xs = map Some bs" and "concat bs = ?xs"
      and "length ?xs = 52 \<longrightarrow> map length bs = [25, 25, 2]"
    with l show ?thesis
      by (intro exI[of _ bs] conjI) simp_all
  qed
  with l show ?thesis ..
qed

section \<open>Properties of the validation stage\<close>

declare validateUser.simps [simp del]

lemma filterUsers_zip:
  "filterUsers rows k errs =
     (map fst (filter (\<lambda>(user, i). valid (validateUser (Some user) i)) (zip rows [k..<k + length rows])),
      errs @ map (\<lambda>(user, i). error (validateUser (Some user) i))
               (filter (\<lambda>(user, i). \<not> valid (validateUser (Some user) i)) (zip rows [k..<k + length rows])))"
proof (induction rows arbitrary: k errs)
  case Nil
  show ?case by simp
next
  case (Cons user rest)
  have z: "zip (user # rest) [k..<k + length (user # rest)] =
           (user, k) # zip rest [Suc k..<Suc k + length rest]"
  proof -
    have "[k..<k + length (user # rest)] = k # [Suc k..<Suc k + length rest]"
      by (subst upt_conv_Cons) simp_all
    then show ?thesis by simp
  qed
  show ?case
    unfolding z filterUsers.simps Let_def Cons.IH
    by simp
qed

lemma zip_upt_nth: "zip xs [0..<length xs] = map (\<lambda>i. (xs ! i, i)) [0..<length xs]"
  by (rule nth_equalityI) simp_all

lemma filterUsers_index:
  "filterUsers rows 0 [] =
     (map (\<lambda>i. rows ! i) (filter (\<lambda>i. valid (validateUser (Some (rows ! i)) i)) [0..<length rows]),
      map (\<lambda>i. error (validateUser (Some (rows ! i)) i))
          (filter (\<lambda>i. \<not> valid (validateUser (Some (rows ! i)) i)) [0..<length rows]))"
  unfolding filterUsers_zip
  by (simp add: zip_upt_nth filter_map comp_def)

lemma validateUser_outcome:
  "validateUser user i = \<lparr>valid = True, error = None\<rparr> \<or> (\<exists>r. validateUser user i = rowError i r)"
  by (cases user) (auto simp: validateUser.simps)

lemma validateUser_error:
  "\<not> valid (validateUser user i) \<Longrightarrow> \<exists>msg. error (validateUser user i) = Some msg"
  using validateUser_outcome[of user i] by (auto simp: rowError_def)

lemma validRow_valid: "valid (validateUser (Some validRow) 0)"
  by code_simp

lemma invalidRow_invalid: "\<not> valid (validateUser (Some invalidRow) 0)"
  by code_simp

text \<open>
  Claim C6: the validation stage produces exactly one outcome per row. The positions of the
  rows split into those the validator accepts and those it rejects; the valid users are the
  rows at the accepted positions and the errors are the messages of the rows at the
  rejected positions, both in increasing order of position. So the two lists together are
  as long as the input, no row contributes to both, and every entry of the error list is a
  message.
\<close>

theorem C6_validation_stage:
  "\<exists>ok bad.
     ok = filter (\<lambda>i. valid (validateUser (Some (rows ! i)) i)) [0..<length rows] \<and>
     bad = filter (\<lambda>i. \<not> valid (validateUser (Some (rows ! i)) i)) [0..<length rows] \<and>
     filterUsers rows 0 [] =
       (map (\<lambda>i. rows ! i) ok, map (\<lambda>i. error (validateUser (Some (rows ! i)) i)) bad) \<and>
     length (fst (filterUsers rows 0 [])) + length (snd (filterUsers rows 0 [])) = length rows \<and>
     set ok \<inter> set bad = {} \<and> set ok \<union> set bad = {0..<length rows} \<and>
     sorted_wrt (<) ok \<and> sorted_wrt (<) bad \<and>
     (\<forall>e \<in> set (snd (filterUsers rows 0 [])). e \<noteq> None)"
proof -
  let ?P = "\<lambda>i. valid (validateUser (Some (rows ! i)) i)"
  let ?ok = "filter ?P [0..<length rows]"
  let ?bad = "filter (\<lambda>i. \<not> ?P i) [0..<length rows]"
  have 1: "filterUsers rows 0 [] =
       (map (\<lambda>i. rows ! i) ?ok, map (\<lambda>i. error (validateUser (Some (rows ! i)) i)) ?bad)"
    by (rule filterUsers_index)
  have 2: "length (fst (filterUsers rows 0 [])) + length (snd (filterUsers rows 0 [])) = length rows"
    unfolding 1 using sum_length_filter_compl[of ?P "[0..<length rows]"] by simp
  have 3: "set ?ok \<inter> set ?bad = {}"
    by auto
  have 4: "set ?ok \<union> set ?bad = {0..<length rows}"
    by auto
  have 5: "sorted_wrt (<) ?ok" "sorted_wrt (<) ?bad"
    by (simp_all add: sorted_wrt_filter)
  have 6: "\<forall>e \<in> set (snd (filterUsers rows 0 [])). e \<noteq> None"
    unfolding 1 by (auto dest: validateUser_error)
  show ?thesis
    by (intro exI[of _ ?ok] exI[of _ ?bad] conjI refl 1 2 3 4 5 6)
qed

text \<open>
  Of a valid row followed by a row with a bad email, the first is kept and the second
  gives the one message, for the third line of the sheet.
\<close>

theorem C6_validation_stage_witness:
  "filterUsers [validRow, invalidRow] 0 [] =
     ([validRow], [Some (js (''Row 3: Invalid 'email'' @ [CHR 0x27]))]) \<and>
   length (fst (filterUsers [validRow, invalidRow] 0 [])) +
     length (snd (filterUsers [validRow, invalidRow] 0 [])) = 2 \<and>
   Some (js (''Row 3: Invalid 'email'' @ [CHR 0x27])) \<in> set (snd (filterUsers [validRow, invalidRow] 0 [])) \<and>
   Some (js (''Row 3: Invalid 'email'' @ [CHR 0x27])) \<noteq> None"
proof -
  let ?m = "Some (js (''Row 3: Invalid 'email'' @ [CHR 0x27]))"
  have f: "filterUsers [validRow, invalidRow] 0 [] = ([validRow], [?m])"
    by code_simp
  then have m: "?m \<in> set (snd (filterUsers [validRow, invalidRow] 0 []))"
    by simp
  have "length (fst (filterUsers [validRow, invalidRow] 0 [])) +
          length (snd (filterUsers [validRow, invalidRow] 0 [])) = 2 \<and> ?m \<noteq> None"
    using C6_validation_stage[of "[validRow, invalidRow]"] m
    by (elim exE conjE) simp
  with f m show ?thesis by simp
qed

section \<open>Properties of the batch writes\<close>

lemma worldAfter_Nil: "worldAfter env w [] = w"
  by (simp add: worldAfter_def)

lemma worldAfter_Cons:
  "worldAfter env w (c # cs) = worldAfter env (snd (dynamoSend env c w)) cs"
  by (simp add: worldAfter_def)

lemma sendAll_Cons:
  "sendAll env (b # bs) st =
     (case fst (dynamoSend env (batchCommand b) (world st)) of
        Some e \<Rightarrow> (Inl e, st\<lparr>world := snd (dynamoSend env (batchCommand b) (world st)),
                            issued := issued st @ [batchCommand b]\<rparr>)
      | None \<Rightarrow> sendAll env bs (st\<lparr>world := snd (dynamoSend env (batchCommand b) (world st)),
                                  issued := issued st @ [batchCommand b]\<rparr>))"
  unfolding batchCommand_def
  by (cases "dynamoSend env (BatchWriteItemCommand [(TABLE_NAME, b)]) (world st)")
    (simp add: Let_def split: option.splits)

lemma sendAll_fails:
  assumes "k < length bs"
    and "\<forall>j<k. fst (dynamoSend env (batchCommand (bs ! j))
                  (worldAfter env (world st) (map batchCommand (take j bs)))) = None"
    and "fst (dynamoSend env (batchCommand (bs ! k))
                  (worldAfter env (world st) (map batchCommand (take k bs)))) = Some e"
  shows "sendAll env bs st =
           (Inl e, st\<lparr>world := worldAfter env (world st) (map batchCommand (take (Suc k) bs)),
                      issued := issued st @ map batchCommand (take (Suc k) bs)\<rparr>)"
  using assms
proof (induction bs arbitrary: k st)
  case Nil
  then show ?case by simp
next
  case (Cons b bs)
  let ?w = "snd (dynamoSend env (batchCommand b) (world st))"
  let ?st = "st\<lparr>world := ?w, issued := issued st @ [batchCommand b]\<rparr>"
  show ?case
  proof (cases k)
    case 0
    with Cons.prems(3) have "fst (dynamoSend env (batchCommand b) (world st)) = Some e"
      by (simp add: worldAfter_Nil)
    then show ?thesis
      unfolding sendAll_Cons 0 by (simp add: worldAfter_Cons worldAfter_Nil)
  next
    case (Suc m)
    from Cons.prems(2)[rule_format, of 0] Suc
    have first: "fst (dynamoSend env (batchCommand b) (world st)) = None"
      by (simp add: worldAfter_Nil)
    have m: "m < length bs"
      using Cons.prems(1) Suc by simp
    have before: "\<forall>j<m. fst (dynamoSend env (batchCommand (bs ! j))
                  (worldAfter env (world ?st) (map batchCommand (take j bs)))) = None"
    proof (intro allI impI)
      fix j assume "j < m"
      then have "Suc j < k" using Suc by simp
      from Cons.prems(2)[rule_format, OF this]
      show "fst (dynamoSend env (batchCommand (bs ! j))
                  (worldAfter env (world ?st) (map batchCommand (take j bs)))) = None"
        by (simp add: worldAfter_Cons)
    qed
    have at: "fst (dynamoSend env (batchCommand (bs ! m))
                  (worldAfter env (world ?st) (map batchCommand (take m bs)))) = Some e"
      using Cons.prems(3) Suc by (simp add: worldAfter_Cons)
    have "sendAll env bs ?st =
           (Inl e, ?st\<lparr>world := worldAfter env (world ?st) (map batchCommand (take (Suc m) bs)),
                      issued := issued ?st @ map batchCommand (take (Suc m) bs)\<rparr>)"
      by (rule Cons.IH[OF m before at])
    then show ?thesis
      unfolding sendAll_Cons first Suc by (simp add: worldAfter_Cons)
  qed
qed

lemma sendAll_succeeds:
  assumes "\<forall>j<length bs. fst (dynamoSend env (batchCommand (bs ! j))
                  (worldAfter env (world st) (map batchCommand (take j bs)))) = None"
  shows "sendAll env bs st =
           (Inr (), st\<lparr>world := worldAfter env (world st) (map batchCommand bs),
                       issued := issued st @ map batchCommand bs\<rparr>)"
  using assms
proof (induction bs arbitrary: st)
  case Nil
  show ?case by (simp add: worldAfter_Nil)
next
  case (Cons b bs)
  let ?w = "snd (dynamoSend env (batchCommand b) (world st))"
  let ?st = "st\<lparr>world := ?w, issued := issued st @ [batchCommand b]\<rparr>"
  from Cons.prems[rule_format, of 0]
  have first: "fst (dynamoSend env (batchCommand b) (world st)) = None"
    by (simp add: worldAfter_Nil)
  have rest: "\<forall>j<length bs. fst (dynamoSend env (batchCommand (bs ! j))
                  (worldAfter env (world ?st) (map batchCommand (take j bs)))) = None"
  proof (intro allI impI)
    fix j assume "j < length bs"
    then have "Suc j < length (b # bs)" by simp
    from Cons.prems[rule_format, OF this]
    show "fst (dynamoSend env (batchCommand (bs ! j))
                  (worldAfter env (world ?st) (map batchCommand (take j bs)))) = None"
      by (simp add: worldAfter_Cons)
  qed
  have "sendAll env bs ?st =
           (Inr (), ?st\<lparr>world := worldAfter env (world ?st) (map batchCommand bs),
                       issued := issued ?st @ map batchCommand bs\<rparr>)"
    by (rule Cons.IH[OF rest])
  then show ?case
    unfolding sendAll_Cons first by (simp add: worldAfter_Cons)
qed

text \<open>
  Claim C9: the batches are sent one after the other in batch order. If the send of the
  batch at position \<open>k\<close> is the first to throw, the call ends with that exception after
  exactly the sends of the batches up to and including position \<open>k\<close>: the earlier ones
  stay done (the world is the one they left) and no later batch is sent. If no send throws,
  all batches are sent, in order.
\<close>

theorem C9_sequential_writes:
  "(k < length (batches putRequests) \<and>
    (\<forall>j<k. fst (dynamoSend env (batchCommand (batches putRequests ! j))
               (worldAfter env (world st) (map batchCommand (take j (batches putRequests))))) = None) \<and>
    fst (dynamoSend env (batchCommand (batches putRequests ! k))
               (worldAfter env (world st) (map batchCommand (take k (batches putRequests))))) = Some e
    \<longrightarrow>
    writeToDynamoDBInBatches env putRequests st =
      (Inl e, st\<lparr>world := worldAfter env (world st) (map batchCommand (take (Suc k) (batches putRequests))),
                 issued := issued st @ map batchCommand (take (Suc k) (batches putRequests))\<rparr>)) \<and>
   ((\<forall>j<length (batches putRequests).
       fst (dynamoSend env (batchCommand (batches putRequests ! j))
               (worldAfter env (world st) (map batchCommand (take j (batches putRequests))))) = None)
    \<longrightarrow>
    writeToDynamoDBInBatches env putRequests st =
      (Inr (), st\<lparr>world := worldAfter env (world st) (map batchCommand (batches putRequests)),
                  issued := issued st @ map batchCommand (batches putRequests)\<rparr>))"
  unfolding writeToDynamoDBInBatches_def
  using sendAll_fails[of k "batches putRequests" env st e] sendAll_succeeds[of "batches putRequests" env st]
  by blast

text \<open>
  Fifty-two requests make three batches; when the second send is rejected the first two
  commands have been issued and the third never is.
\<close>

theorem C9_sequential_writes_witness:
  "batches (replicate 52 (PutRequest [])) =
     [Some (replicate 25 (PutRequest [])), Some (replicate 25 (PutRequest [])),
      Some (replicate 2 (PutRequest []))] \<and>
   writeToDynamoDBInBatches (exampleEnv [] 1) (replicate 52 (PutRequest [])) initialState =
     (Inl (Thrown (JStr (js ''write failed''))),
      \<lparr>world = 2, console = [],
       issued = [batchCommand (Some (replicate 25 (PutRequest []))),
                 batchCommand (Some (replicate 25 (PutRequest [])))]\<rparr>)"
proof -
  let ?env = "exampleEnv [] 1 :: (nat, unit) env"
  let ?reqs = "replicate 52 (PutRequest [])"
  have b: "batches ?reqs =
     [Some (replicate 25 (PutRequest [])), Some (replicate 25 (PutRequest [])),
      Some (replicate 2 (PutRequest []))]"
    by code_simp
  have h1: "1 < length (batches ?reqs)"
    unfolding b by simp
  have h2: "\<forall>j<1. fst (dynamoSend ?env (batchCommand (batches ?reqs ! j))
               (worldAfter ?env (world initialState) (map batchCommand (take j (batches ?reqs))))) = None"
    unfolding b by (simp add: exampleEnv_def worldAfter_def initialState_def)
  have h3: "fst (dynamoSend ?env (batchCommand (batches ?reqs ! 1))
               (worldAfter ?env (world initialState) (map batchCommand (take 1 (batches ?reqs))))) =
            Some (Thrown (JStr (js ''write failed'')))"
    unfolding b by (simp add: exampleEnv_def worldAfter_def initialState_def)
  from C9_sequential_writes[of 1 ?reqs ?env initialState "Thrown (JStr (js ''write failed''))",
      THEN conjunct1, rule_format, OF conjI[OF h1 conjI[OF h2 h3]]]
  have "writeToDynamoDBInBatches ?env ?reqs initialState =
      (Inl (Thrown (JStr (js ''write failed''))),
       initialState\<lparr>world := worldAfter ?env (world initialState) (map batchCommand (take (Suc 1) (batches ?reqs))),
                  issued := issued initialState @ map batchCommand (take (Suc 1) (batches ?reqs))\<rparr>)" .
  then have "writeToDynamoDBInBatches ?env ?reqs initialState =
     (Inl (Thrown (JStr (js ''write failed''))),
      \<lparr>world = 2, console = [],
       issued = [batchCommand (Some (replicate 25 (PutRequest []))),
                 batchCommand (Some (replicate 25 (PutRequest [])))]\<rparr>)"
    unfolding b by (simp add: exampleEnv_def worldAfter_def initialState_def)
  with b show ?thesis by (intro conjI)
qed

section \<open>Properties of the write requests\<close>

lemma valid_userId_truthy:
  assumes "valid (validateUser (Some u) i)"
  shows "truthy (getProp u ''userId'')"
proof (rule ccontr)
  assume "\<not> truthy (getProp u ''userId'')"
  then have "validateUser (Some u) i = rowError i reasonEmpty \<or>
             validateUser (Some u) i = rowError i reasonUserId"
    by (simp add: validateUser.simps)
  with assms show False
    by (auto simp: rowError_def)
qed

lemma toString_method_truthy: "truthy v \<Longrightarrow> toString_method v = Inr (String_of v)"
  by (cases v) (simp_all add: toString_method_def)

lemma buildPutRequests_js_valid:
  "(\<forall>u \<in> set users. \<exists>i. valid (validateUser (Some u) i)) \<Longrightarrow>
   buildPutRequests_js users = Inr (buildPutRequests users)"
proof (induction users)
  case Nil
  show ?case by (simp add: buildPutRequests_def)
next
  case (Cons u users)
  from Cons.prems obtain i where "valid (validateUser (Some u) i)"
    by auto
  then have "toString_method (getProp u ''userId'') = Inr (String_of (getProp u ''userId''))"
    by (intro toString_method_truthy valid_userId_truthy)
  moreover have "buildPutRequests_js users = Inr (buildPutRequests users)"
    using Cons by simp
  ultimately show ?case
    by (simp add: buildPutRequests_def)
qed

text \<open>
  Claim C10: the write item of a user has the attributes \<open>userId\<close>, \<open>name\<close>, \<open>email\<close>
  and \<open>profileImage\<close>, and none called \<open>profileImageUrl\<close>. Its \<open>userId\<close> is the string
  conversion of the user's. When the user has no \<open>profileImageUrl\<close> the attribute
  \<open>profileImage\<close> is present and holds the empty string; a value other than \<^verbatim>\<open>null\<close>
  and \<^verbatim>\<open>undefined\<close> is stored as it is. On users that passed validation the JavaScript
  version of the handler builds the same requests.
\<close>

theorem C10_write_item:
  "length (buildPutRequests users) = length users \<and>
   (\<forall>k<length users. \<exists>item.
      buildPutRequests users ! k = PutRequest item \<and>
      map fst item = [''userId'', ''name'', ''email'', ''profileImage''] \<and>
      map_of item ''profileImageUrl'' = None \<and>
      map_of item ''userId'' = Some (S (JStr (String_of (getProp (users ! k) ''userId'')))) \<and>
      (map_of (users ! k) ''profileImageUrl'' = None \<longrightarrow>
         map_of item ''profileImage'' = Some (S (JStr []))) \<and>
      (\<forall>v. map_of (users ! k) ''profileImageUrl'' = Some v \<and> v \<noteq> JNull \<and> v \<noteq> JUndefined \<longrightarrow>
         map_of item ''profileImage'' = Some (S v))) \<and>
   ((\<forall>u \<in> set users. \<exists>i. valid (validateUser (Some u) i)) \<longrightarrow>
      buildPutRequests_js users = Inr (buildPutRequests users))"
proof -
  have 1: "length (buildPutRequests users) = length users"
    by (simp add: buildPutRequests_def)
  have 2: "\<forall>k<length users. \<exists>item.
      buildPutRequests users ! k = PutRequest item \<and>
      map fst item = [''userId'', ''name'', ''email'', ''profileImage''] \<and>
      map_of item ''profileImageUrl'' = None \<and>
      map_of item ''userId'' = Some (S (JStr (String_of (getProp (users ! k) ''userId'')))) \<and>
      (map_of (users ! k) ''profileImageUrl'' = None \<longrightarrow>
         map_of item ''profileImage'' = Some (S (JStr []))) \<and>
      (\<forall>v. map_of (users ! k) ''profileImageUrl'' = Some v \<and> v \<noteq> JNull \<and> v \<noteq> JUndefined \<longrightarrow>
         map_of item ''profileImage'' = Some (S v))"
    by (simp add: buildPutRequests_def getProp_def nullish_def)
  have 3: "(\<forall>u \<in> set users. \<exists>i. valid (validateUser (Some u) i)) \<longrightarrow>
      buildPutRequests_js users = Inr (buildPutRequests users)"
    using buildPutRequests_js_valid by blast
  from 1 2 3 show ?thesis by (intro conjI)
qed

text \<open>
  The valid example row, with the numeric \<open>userId\<close> 42 and no \<open>profileImageUrl\<close>.
\<close>

theorem C10_write_item_witness:
  "valid (validateUser (Some validRow) 0) \<and>
   map_of validRow ''profileImageUrl'' = None \<and>
   buildPutRequests_js [validRow] =
     Inr [PutRequest [(''userId'', S (JStr (js ''42''))),
                      (''name'', S (JStr (js ''Ann''))),
                      (''email'', S (JStr (js ''ann@x.io''))),
                      (''profileImage'', S (JStr []))]]"
proof -
  have v: "\<forall>u \<in> set [validRow]. \<exists>i. valid (validateUser (Some u) i)"
    using validRow_valid by auto
  have a: "map_of validRow ''profileImageUrl'' = None"
    by (simp add: validRow_def)
  have b: "buildPutRequests [validRow] =
     [PutRequest [(''userId'', S (JStr (js ''42''))),
                  (''name'', S (JStr (js ''Ann''))),
                  (''email'', S (JStr (js ''ann@x.io''))),
                  (''profileImage'', S (JStr []))]]"
    by code_simp
  from C10_write_item[of "[validRow]"] v have "buildPutRequests_js [validRow] = Inr (buildPutRequests [validRow])"
    by blast
  with validRow_valid a b show ?thesis by simp
qed

section \<open>Properties of the handler\<close>

lemma filterUsers_none_valid:
  assumes "\<forall>i<length rows. \<not> valid (validateUser (Some (rows ! i)) i)"
  shows "fst (filterUsers rows 0 []) = []" and "length (snd (filterUsers rows 0 [])) = length rows"
proof -
  have "filter (\<lambda>i. valid (validateUser (Some (rows ! i)) i)) [0..<length rows] = []"
    using assms by (simp add: filter_empty_conv)
  moreover have "filter (\<lambda>i. \<not> valid (validateUser (Some (rows ! i)) i)) [0..<length rows] = [0..<length rows]"
    using assms by (simp add: filter_id_conv)
  ultimately show "fst (filterUsers rows 0 []) = []"
    and "length (snd (filterUsers rows 0 [])) = length rows"
    by (simp_all add: filterUsers_index)
qed

lemma processRows_none_valid:
  assumes "\<forall>i<length rows. \<not> valid (validateUser (Some (rows ! i)) i)"
  shows "processRows env rows st = (Inr (), logTo (ConsoleWarn [Text (js ''No valid records found.'')]) st)"
proof (cases "filterUsers rows 0 []")
  case (Pair validUsers errors)
  with filterUsers_none_valid(1)[OF assms] have "validUsers = []"
    by simp
  with Pair show ?thesis
    by (simp add: processRows_def)
qed

text \<open>
  Claim C7: when the sheet has rows and every row fails validation, the handler writes the
  one warning "No valid records found." to the console and returns. No command is sent to
  the table, and the messages collected for the rows, of which there is one per row, are
  not written to the console.
\<close>

theorem C7_no_valid_rows:
  assumes "Records event = Some (r # rs)"
    and "bucketName r = Some bucket" and "bucket \<noteq> []"
    and "objectKey r = Some key" and "key \<noteq> []"
    and "decodeURIComponent env (replacePlus key) = Inr key1"
    and "getObject env bucket key1 (world st) = (Inr body, w)"
    and "streamToBuffer body = Inr buffer"
    and "xlsxRead env buffer = Inr workbook"
    and "SheetNames workbook = Some (first # others)"
    and "sheet_to_json env (Sheets workbook first) = Inr (Some rows)"
    and "rows \<noteq> []"
    and "\<forall>i<length rows. \<not> valid (validateUser (Some (rows ! i)) i)"
  shows "handler env event st =
           (Inr (), st\<lparr>world := w,
                       console := console st @ [ConsoleWarn [Text (js ''No valid records found.'')]]\<rparr>) \<and>
         issued (snd (handler env event st)) = issued st \<and>
         fst (filterUsers rows 0 []) = [] \<and>
         length (snd (filterUsers rows 0 [])) = length rows \<and>
         snd (filterUsers rows 0 []) \<noteq> []"
proof -
  obtain x xs where rows: "rows = x # xs"
    using assms(12) by (cases rows) auto
  have pw: "processWorkbook env workbook (st\<lparr>world := w\<rparr>) =
            (Inr (), logTo (ConsoleWarn [Text (js ''No valid records found.'')]) (st\<lparr>world := w\<rparr>))"
    using assms(10,11) processRows_none_valid[OF assms(13), of env "st\<lparr>world := w\<rparr>"]
    by (simp add: processWorkbook_def rows)
  have hb: "handlerBody env event st =
            (Inr (), logTo (ConsoleWarn [Text (js ''No valid records found.'')]) (st\<lparr>world := w\<rparr>))"
    using assms(1-9) pw by (simp add: handlerBody_def)
  have 1: "handler env event st =
           (Inr (), st\<lparr>world := w,
                       console := console st @ [ConsoleWarn [Text (js ''No valid records found.'')]]\<rparr>)"
    by (simp add: handler_def hb logTo_def)
  have 2: "issued (snd (handler env event st)) = issued st"
    unfolding 1 by simp
  note 3 = filterUsers_none_valid[OF assms(13)]
  have 4: "snd (filterUsers rows 0 []) \<noteq> []"
    using 3(2) assms(12) by auto
  from 1 2 3 4 show ?thesis by (intro conjI)
qed

text \<open>
  A sheet whose only row has a bad email.
\<close>

theorem C7_no_valid_rows_witness:
  "\<not> valid (validateUser (Some invalidRow) 0) \<and>
   handler (exampleEnv [invalidRow] 0) exampleEvent initialState =
     (Inr (), \<lparr>world = 0, console = [ConsoleWarn [Text (js ''No valid records found.'')]], issued = []\<rparr>) \<and>
   snd (filterUsers [invalidRow] 0 []) \<noteq> []"
proof -
  let ?env = "exampleEnv [invalidRow] 0"
  let ?r = "\<lparr>bucketName = Some (js ''uploads''), objectKey = Some (js ''users.xlsx'')\<rparr>"
  let ?wb = "\<lparr>SheetNames = Some [js ''Sheet1''], Sheets = (\<lambda>name. Some ())\<rparr> :: unit workbook"
  let ?body = "\<lparr>chunksOf = [], failure = None\<rparr>"
  have h1: "Records exampleEvent = Some (?r # [])"
    by (simp add: exampleEvent_def)
  have h2: "bucketName ?r = Some (js ''uploads'')" and h4: "objectKey ?r = Some (js ''users.xlsx'')"
    by simp_all
  have h3: "js ''uploads'' \<noteq> []" and h5: "js ''users.xlsx'' \<noteq> []"
    by (simp_all add: js_def)
  have h6: "decodeURIComponent ?env (replacePlus (js ''users.xlsx'')) = Inr (replacePlus (js ''users.xlsx''))"
    by (simp add: exampleEnv_def)
  have h7: "getObject ?env (js ''uploads'') (replacePlus (js ''users.xlsx'')) (world initialState) = (Inr ?body, 0)"
    by (simp add: exampleEnv_def initialState_def)
  have h8: "streamToBuffer ?body = Inr []"
    by (simp add: streamToBuffer_def)
  have h9: "xlsxRead ?env [] = Inr ?wb"
    by (simp add: exampleEnv_def)
  have h10: "SheetNames ?wb = Some (js ''Sheet1'' # [])"
    by simp
  have h11: "sheet_to_json ?env (Sheets ?wb (js ''Sheet1'')) = Inr (Some [invalidRow])"
    by (simp add: exampleEnv_def)
  have h12: "[invalidRow] \<noteq> []"
    by simp
  have h13: "\<forall>i<length [invalidRow]. \<not> valid (validateUser (Some ([invalidRow] ! i)) i)"
    using invalidRow_invalid by simp
  from C7_no_valid_rows[OF h1 h2 h3 h4 h5 h6 h7 h8 h9 h10 h11 h12 h13] invalidRow_invalid
  show ?thesis
    by (simp add: initialState_def)
qed














end
